theory Spec2Isabelle
  imports
    Complex_Main
    "HOL-Library.Char_ord"
    "HOL-Library.List_Lexorder"
    "HOL-Library.Log_Nat"
    "HOL-Library.Multiset"
begin

section \<open>Document discovery and extraction of bill-lens\<close>

text \<open>
  A shallow embedding of the discovery and extraction pipeline under
  \<^verbatim>\<open>src/lib/epstein\<close>: the URL normaliser (\<^verbatim>\<open>discovery/normalize-url.ts\<close>),
  the EFTA inference of the hub crawler (\<^verbatim>\<open>discovery/hub-crawler.ts\<close>), the
  orchestrator (\<^verbatim>\<open>discovery/orchestrator.ts\<close>), the catalog store
  (\<^verbatim>\<open>lib/db.ts\<close>) and the extraction pipeline (\<^verbatim>\<open>extract.ts\<close>).
\<close>

subsection \<open>Characters and strings\<close>

text \<open>
  JavaScript strings are modelled as \<^typ>\<open>string\<close>; every string the model looks
  into is ASCII, where a character is one UTF-16 code unit and \<^verbatim>\<open>length\<close> agrees.
\<close>

definition lowerAlpha :: string where
  "lowerAlpha = ''abcdefghijklmnopqrstuvwxyz''"

definition upperAlpha :: string where
  "upperAlpha = ''ABCDEFGHIJKLMNOPQRSTUVWXYZ''"

definition digitChars :: string where
  "digitChars = ''0123456789''"


definition isAlnum :: "char \<Rightarrow> bool" where
  "isAlnum c = (c \<in> set lowerAlpha \<or> c \<in> set upperAlpha \<or> c \<in> set digitChars)"

text \<open>\<^verbatim>\<open>String.prototype.toLowerCase\<close> on one ASCII character.\<close>

definition toLowerChar :: "char \<Rightarrow> char" where
  "toLowerChar c = (case map_of (zip upperAlpha lowerAlpha) c of Some l \<Rightarrow> l | None \<Rightarrow> c)"

definition toLowerCase :: "string \<Rightarrow> string" where
  "toLowerCase s = map toLowerChar s"

text \<open>\<^verbatim>\<open>s.endsWith(t)\<close>, \<^verbatim>\<open>s.startsWith(t)\<close> and \<^verbatim>\<open>s.includes(t)\<close>.\<close>

definition endsWith :: "string \<Rightarrow> string \<Rightarrow> bool" where
  "endsWith s t = (length t \<le> length s \<and> drop (length s - length t) s = t)"

definition startsWith :: "string \<Rightarrow> string \<Rightarrow> bool" where
  "startsWith s t = (take (length t) s = t)"

fun str_includes :: "string \<Rightarrow> string \<Rightarrow> bool" where
  "str_includes [] t = (t = [])"
| "str_includes (c # s) t = (startsWith (c # s) t \<or> str_includes s t)"

text \<open>\<^verbatim>\<open>s.split(c)\<close> for a one-character separator: never empty, the pieces hold no \<open>c\<close>.\<close>

fun str_split :: "char \<Rightarrow> string \<Rightarrow> string list" where
  "str_split c [] = [[]]"
| "str_split c (x # xs) =
     (if x = c then [] # str_split c xs
      else (case str_split c xs of [] \<Rightarrow> [[x]] | p # ps \<Rightarrow> (x # p) # ps))"

text \<open>\<^verbatim>\<open>pieces.join(sep)\<close>.\<close>

fun str_join :: "string \<Rightarrow> string list \<Rightarrow> string" where
  "str_join sep [] = []"
| "str_join sep [p] = p"
| "str_join sep (p # q # ps) = p @ sep @ str_join sep (q # ps)"

subsection \<open>The platform's URL class, on the fragment the model covers\<close>

text \<open>
  \<^verbatim>\<open>normalizeUrl\<close> is written against the platform's \<^verbatim>\<open>URL\<close> class (the WHATWG
  URL Standard), which is not code of the repository. The class is modelled on a
  fragment of its input language:
  \<^item> scheme \<^verbatim>\<open>http\<close> or \<^verbatim>\<open>https\<close> in any letter case, followed by \<^verbatim>\<open>://\<close>;
  \<^item> a host of letters, digits, \<^verbatim>\<open>-\<close> and \<^verbatim>\<open>.\<close> whose last label starts with a
    letter (so that the IPv4 parser does not apply) and with no label that starts
    with \<^verbatim>\<open>xn--\<close> (so that no Punycode validation applies); no credentials, no port;
  \<^item> a path of letters, digits and \<^verbatim>\<open>-._~%/\<close> with no dot segment (the parser keeps
    such a path as it is, empty segments included);
  \<^item> a query of \<^verbatim>\<open>&\<close>-separated \<^verbatim>\<open>name=value\<close> pieces over letters, digits and
    \<^verbatim>\<open>*-._\<close> (the characters the form-urlencoded serialiser writes back unchanged);
  \<^item> a fragment of letters, digits and \<^verbatim>\<open>-._~\<close>.

  Whenever \<open>URL_new s = Some u\<close>, the platform's constructor accepts \<open>s\<close> and \<open>u\<close>
  holds the components it computes. Outside the fragment \<open>URL_new\<close> answers \<open>None\<close>,
  which stands for the constructor's \<^verbatim>\<open>TypeError\<close>; that is exact for strings with
  no scheme, and only an under-approximation for strings the Standard parses by rules
  not modelled here. The theorems about \<open>normalizeUrl\<close> below look inside the function
  only on strings of the fragment.
\<close>

record URL =
  protocol :: string
  hostname :: string
  pathname :: string
  query :: "string option"
  searchParams :: "(string \<times> string) list"
  hash :: "string option"

definition hostChar :: "char \<Rightarrow> bool" where
  "hostChar c = (isAlnum c \<or> c \<in> set ''-.'')"

definition pathChar :: "char \<Rightarrow> bool" where
  "pathChar c = (isAlnum c \<or> c \<in> set ''-._~%/'')"

definition paramChar :: "char \<Rightarrow> bool" where
  "paramChar c = (isAlnum c \<or> c \<in> set ''*-._'')"

definition fragmentChar :: "char \<Rightarrow> bool" where
  "fragmentChar c = (isAlnum c \<or> c \<in> set ''-._~'')"

definition dotSegments :: "string list" where
  "dotSegments = [''.'', ''..'', ''%2e'', ''%2E'', ''.%2e'', ''.%2E'', ''%2e.'', ''%2E.'',
                  ''%2e%2e'', ''%2e%2E'', ''%2E%2e'', ''%2E%2E'']"

definition host_ok :: "string \<Rightarrow> bool" where
  "host_ok h =
     (h \<noteq> [] \<and> (\<forall>c \<in> set h. hostChar c) \<and>
      (\<forall>l \<in> set (str_split (CHR ''.'') h). \<not> startsWith (toLowerCase l) ''xn--'') \<and>
      (case last (str_split (CHR ''.'') h) of [] \<Rightarrow> False
       | c # _ \<Rightarrow> c \<in> set lowerAlpha \<or> c \<in> set upperAlpha))"

definition path_ok :: "string \<Rightarrow> bool" where
  "path_ok p =
     ((p = [] \<or> hd p = CHR ''/'') \<and> (\<forall>c \<in> set p. pathChar c) \<and>
      (\<forall>s \<in> set (str_split (CHR ''/'') p). s \<notin> set dotSegments))"

text \<open>
  The form-urlencoded parser: the query is cut at every \<^verbatim>\<open>&\<close>, empty pieces are
  dropped, and each piece is cut at its first \<^verbatim>\<open>=\<close> (a piece with none has the
  empty value).
\<close>

definition parsePair :: "string \<Rightarrow> string \<times> string" where
  "parsePair piece =
     (takeWhile (\<lambda>c. c \<noteq> CHR ''='') piece, drop 1 (dropWhile (\<lambda>c. c \<noteq> CHR ''='') piece))"

definition parseQuery :: "string \<Rightarrow> (string \<times> string) list" where
  "parseQuery q = map parsePair (filter (\<lambda>piece. piece \<noteq> []) (str_split (CHR ''&'') q))"

definition query_ok :: "string \<Rightarrow> bool" where
  "query_ok q = (\<forall>(n, v) \<in> set (parseQuery q). (\<forall>c \<in> set n. paramChar c) \<and> (\<forall>c \<in> set v. paramChar c))"

text \<open>The form-urlencoded serialiser, on names and values of \<open>paramChar\<close>s.\<close>

definition serializeParams :: "(string \<times> string) list \<Rightarrow> string" where
  "serializeParams ps = str_join ''&'' (map (\<lambda>(n, v). n @ ''='' @ v) ps)"

text \<open>\<^verbatim>\<open>new URL(input)\<close>; \<open>None\<close> is the \<^verbatim>\<open>TypeError\<close>.\<close>

definition URL_new :: "string \<Rightarrow> URL option" where
  "URL_new input =
     (let scheme = toLowerCase (takeWhile (\<lambda>c. c \<noteq> CHR '':'') input);
          afterScheme = dropWhile (\<lambda>c. c \<noteq> CHR '':'') input;
          rest = drop 3 afterScheme;
          host = takeWhile (\<lambda>c. c \<notin> set ''/?#'') rest;
          rest1 = dropWhile (\<lambda>c. c \<notin> set ''/?#'') rest;
          path = takeWhile (\<lambda>c. c \<notin> set ''?#'') rest1;
          rest2 = dropWhile (\<lambda>c. c \<notin> set ''?#'') rest1;
          q = (if startsWith rest2 ''?''
               then Some (takeWhile (\<lambda>c. c \<noteq> CHR ''#'') (drop 1 rest2)) else None);
          rest3 = dropWhile (\<lambda>c. c \<noteq> CHR ''#'') rest2;
          frag = (if rest3 = [] then None else Some (drop 1 rest3))
      in if (scheme = ''http'' \<or> scheme = ''https'') \<and> startsWith afterScheme ''://'' \<and>
            host_ok host \<and> path_ok path \<and>
            (case q of None \<Rightarrow> True | Some text \<Rightarrow> query_ok text) \<and>
            (case frag of None \<Rightarrow> True | Some text \<Rightarrow> \<forall>c \<in> set text. fragmentChar c)
         then Some \<lparr>protocol = scheme @ '':'',
                    hostname = toLowerCase host,
                    pathname = (if path = [] then ''/'' else path),
                    query = q,
                    searchParams = (case q of None \<Rightarrow> [] | Some text \<Rightarrow> parseQuery text),
                    hash = frag\<rparr>
         else None)"

text \<open>
  The \<^verbatim>\<open>protocol\<close> setter: the value up to its colon replaces the scheme when both
  the old and the new scheme are special (here: \<^verbatim>\<open>http\<close>, \<^verbatim>\<open>https\<close>).
\<close>

definition set_protocol :: "string \<Rightarrow> URL \<Rightarrow> URL" where
  "set_protocol v u =
     (let scheme = toLowerCase (takeWhile (\<lambda>c. c \<noteq> CHR '':'') v)
      in if scheme = ''http'' \<or> scheme = ''https'' then u\<lparr>protocol := scheme @ '':''\<rparr> else u)"

text \<open>The \<^verbatim>\<open>hostname\<close> setter parses the value as a host; an invalid one is ignored.\<close>

definition set_hostname :: "string \<Rightarrow> URL \<Rightarrow> URL" where
  "set_hostname v u = (if host_ok v then u\<lparr>hostname := toLowerCase v\<rparr> else u)"

text \<open>
  \<^verbatim>\<open>searchParams.delete(name)\<close> and \<^verbatim>\<open>searchParams.sort()\<close> change the list and
  then write its serialisation back as the URL's query, \<^verbatim>\<open>null\<close> when it is empty.
  The sort is stable and orders by name, comparing code units.
\<close>

definition updateQuery :: "(string \<times> string) list \<Rightarrow> URL \<Rightarrow> URL" where
  "updateQuery ps u =
     u\<lparr>searchParams := ps, query := (if ps = [] then None else Some (serializeParams ps))\<rparr>"

definition searchParams_delete :: "string \<Rightarrow> URL \<Rightarrow> URL" where
  "searchParams_delete name u = updateQuery (filter (\<lambda>(n, v). n \<noteq> name) (searchParams u)) u"

definition searchParams_sort :: "URL \<Rightarrow> URL" where
  "searchParams_sort u = updateQuery (sort_key fst (searchParams u)) u"

text \<open>The \<^verbatim>\<open>hash\<close> setter: the empty string removes the fragment.\<close>

definition set_hash :: "string \<Rightarrow> URL \<Rightarrow> URL" where
  "set_hash v u =
     (if v = [] then u\<lparr>hash := None\<rparr>
      else u\<lparr>hash := Some (if startsWith v ''#'' then drop 1 v else v)\<rparr>)"

definition URL_toString :: "URL \<Rightarrow> string" where
  "URL_toString u =
     protocol u @ ''//'' @ hostname u @ pathname u @
     (case query u of None \<Rightarrow> [] | Some q \<Rightarrow> ''?'' @ q) @
     (case hash u of None \<Rightarrow> [] | Some f \<Rightarrow> ''#'' @ f)"

subsection \<open>normalize-url.ts\<close>

definition TRACKING_PARAMS :: "string list" where
  "TRACKING_PARAMS =
     [''utm_source'', ''utm_medium'', ''utm_campaign'', ''utm_term'', ''utm_content'',
      ''fbclid'', ''gclid'', ''msclkid'', ''ref'', ''source'', ''mc_cid'', ''mc_eid'']"

definition normalizeUrl :: "string \<Rightarrow> string" where
  "normalizeUrl rawUrl =
     (case URL_new rawUrl of
        None \<Rightarrow> rawUrl
      | Some url0 \<Rightarrow>
          (let url1 = set_protocol ''https:'' url0;
               url2 = set_hostname (toLowerCase (hostname url1)) url1;
               url3 = fold searchParams_delete TRACKING_PARAMS url2;
               url4 = searchParams_sort url3;
               url5 = set_hash [] url4;
               result = URL_toString url5
           in if endsWith result ''/'' \<and> pathname url5 \<noteq> ''/'' then butlast result
              else result))"

subsection \<open>Discovered URLs (hub-crawler.ts) and their deduplication (orchestrator.ts)\<close>

datatype FileType = Pdf | Html | Unknown

record DiscoveredUrl =
  url :: string
  title :: string
  sourceHub :: string
  fileType :: FileType

text \<open>\<^verbatim>\<open>DiscoveredUrl & { discoverySource: string }\<close>.\<close>

record TaggedUrl = DiscoveredUrl +
  discoverySource :: string

record DeduplicatedDoc =
  d_url :: string
  d_canonicalUrl :: string
  d_title :: string
  d_fileType :: FileType
  d_discoverySource :: string
  d_sourceHub :: string

text \<open>
  The loop of \<^verbatim>\<open>deduplicateUrls\<close> over its \<^verbatim>\<open>Map\<close>, which keeps its keys in
  insertion order: an association list that only grows at its end.
\<close>

fun deduplicateLoop ::
  "(string \<times> DeduplicatedDoc) list \<Rightarrow> TaggedUrl list \<Rightarrow> (string \<times> DeduplicatedDoc) list" where
  "deduplicateLoop byCanonical [] = byCanonical"
| "deduplicateLoop byCanonical (item # rest) =
     (let canonical = normalizeUrl (url item)
      in if canonical \<notin> fst ` set byCanonical
         then deduplicateLoop
                (byCanonical @
                 [(canonical,
                   \<lparr>d_url = url item,
                    d_canonicalUrl = canonical,
                    d_title = title item,
                    d_fileType = fileType item,
                    d_discoverySource = discoverySource item,
                    d_sourceHub = sourceHub item\<rparr>)])
                rest
         else deduplicateLoop byCanonical rest)"

definition deduplicateUrls :: "TaggedUrl list \<Rightarrow> DeduplicatedDoc list" where
  "deduplicateUrls allUrls = map snd (deduplicateLoop [] allUrls)"

subsection \<open>EFTA inference (hub-crawler.ts)\<close>














subsection \<open>Outcomes: values and exceptions\<close>

text \<open>
  An \<^verbatim>\<open>async\<close> function either returns or throws. A computation over the catalog
  takes the catalog and gives back \<open>Inr\<close> its value or \<open>Inl\<close> the exception, with the
  catalog as it has left it.
\<close>

datatype exn = FirestoreError | NetworkError | RateLimited nat | HttpError nat | ParseError

type_synonym ('s, 'a) io = "'s \<Rightarrow> (exn + 'a) \<times> 's"

definition return :: "'a \<Rightarrow> ('s, 'a) io" where
  "return x = (\<lambda>st. (Inr x, st))"

definition throw :: "exn \<Rightarrow> ('s, 'a) io" where
  "throw e = (\<lambda>st. (Inl e, st))"

text \<open>\<^verbatim>\<open>const x = await m; f(x)\<close>.\<close>

definition bind :: "('s, 'a) io \<Rightarrow> ('a \<Rightarrow> ('s, 'b) io) \<Rightarrow> ('s, 'b) io" where
  "bind m f = (\<lambda>st. case m st of (Inl e, st') \<Rightarrow> (Inl e, st') | (Inr x, st') \<Rightarrow> f x st')"

text \<open>\<^verbatim>\<open>try { m } catch (err) { h(err) }\<close>.\<close>

definition catch :: "('s, 'a) io \<Rightarrow> (exn \<Rightarrow> ('s, 'a) io) \<Rightarrow> ('s, 'a) io" where
  "catch m h = (\<lambda>st. case m st of (Inl e, st') \<Rightarrow> h e st' | (Inr x, st') \<Rightarrow> (Inr x, st'))"

subsection \<open>The catalog store (db.ts)\<close>

text \<open>
  A \<^verbatim>\<open>Date\<close> is its time value, the milliseconds since the epoch. The instants that
  the \<^verbatim>\<open>new Date()\<close> calls of one top-level call read are identified: the call takes
  its instant \<open>now\<close> as an argument.
\<close>

type_synonym Date = nat

record LineageEntry =
  l_source :: string
  l_sourceId :: string
  l_firstSeen :: string
  l_lastSeen :: string

text \<open>
  \<^verbatim>\<open>interface EpsteinDocument\<close>. A generated document id is modelled by a number;
  \<^verbatim>\<open>T | null\<close> by \<^typ>\<open>'a option\<close>; the numbers of pages and characters by naturals
  and the quality score by a rational.
\<close>

record EpsteinDocument =
  e_id :: nat
  e_title :: string
  e_sourceUrl :: string
  e_canonicalUrl :: "string option"
  e_finalUrl :: "string option"
  e_documentType :: "string option"
  e_fileType :: string
  e_contentType :: "string option"
  e_pageCount :: "nat option"
  e_rawText :: "string option"
  e_summary :: "string option"
  e_lengthChars :: "nat option"
  e_textHash :: "string option"
  e_byteHash :: "string option"
  e_caseNumber :: "string option"
  e_filedDate :: "Date option"
  e_parties :: "string list"
  e_keywords :: "string list"
  e_entities :: "string list"
  e_httpEtag :: "string option"
  e_httpLastModified :: "string option"
  e_lastFetchedAt :: "Date option"
  e_extractionQuality :: "rat option"
  e_ocrRequired :: bool
  e_discoveryLineage :: "LineageEntry list option"
  e_status :: string
  e_searchTerms :: "string list"
  e_createdAt :: Date
  e_updatedAt :: Date

text \<open>
  \<^verbatim>\<open>Partial<EpsteinDocument>\<close>, the argument of \<^verbatim>\<open>create\<close> and \<^verbatim>\<open>update\<close>: \<open>None\<close> is a
  field the object literal does not have (\<^verbatim>\<open>undefined\<close>). It has the fields that the
  callers in orchestrator.ts and extract.ts ever pass, and \<^verbatim>\<open>summary\<close>, which
  \<^verbatim>\<open>update\<close> looks at.
\<close>

record EpsteinDocumentFields =
  p_title :: "string option"
  p_sourceUrl :: "string option"
  p_canonicalUrl :: "string option option"
  p_documentType :: "string option option"
  p_fileType :: "string option"
  p_contentType :: "string option option"
  p_pageCount :: "nat option option"
  p_rawText :: "string option option"
  p_summary :: "string option option"
  p_lengthChars :: "nat option option"
  p_textHash :: "string option option"
  p_byteHash :: "string option option"
  p_httpEtag :: "string option option"
  p_httpLastModified :: "string option option"
  p_lastFetchedAt :: "Date option option"
  p_extractionQuality :: "rat option option"
  p_ocrRequired :: "bool option"
  p_discoveryLineage :: "LineageEntry list option option"
  p_status :: "string option"

definition noFields :: EpsteinDocumentFields where
  "noFields =
     \<lparr>p_title = None, p_sourceUrl = None, p_canonicalUrl = None, p_documentType = None,
      p_fileType = None, p_contentType = None, p_pageCount = None, p_rawText = None,
      p_summary = None, p_lengthChars = None, p_textHash = None, p_byteHash = None,
      p_httpEtag = None, p_httpLastModified = None, p_lastFetchedAt = None,
      p_extractionQuality = None, p_ocrRequired = None, p_discoveryLineage = None,
      p_status = None\<rparr>"

record UrlAlias =
  a_id :: nat
  a_documentId :: nat
  a_aliasUrl :: string
  a_discoverySource :: string
  a_firstSeen :: Date
  a_lastSeen :: Date

record DiscoveryRun =
  r_id :: nat
  r_source :: string
  r_urlsFound :: nat
  r_urlsNew :: nat
  r_urlsChanged :: nat
  r_errors :: nat
  r_startedAt :: Date
  r_completedAt :: "Date option"

text \<open>
  The catalog: the three collections in document-id order (the order in which an
  equality query returns its matches), the supply of generated ids, which are fresh
  and modelled as increasing, and the failures to come: each round trip to the store
  takes the next entry of \<open>faults\<close> and throws when it is \<open>True\<close>; with none left every
  round trip succeeds. \<^verbatim>\<open>logJob\<close> writes to a collection that nothing here reads and
  swallows its own failures; the model leaves it out.
\<close>

record Catalog =
  documents :: "EpsteinDocument list"
  aliases :: "UrlAlias list"
  runs :: "DiscoveryRun list"
  nextId :: nat
  faults :: "bool list"

definition roundTrip :: "(Catalog, unit) io" where
  "roundTrip st =
     (case faults st of
        [] \<Rightarrow> (Inr (), st)
      | failed # later \<Rightarrow>
          if failed then (Inl FirestoreError, st\<lparr>faults := later\<rparr>)
          else (Inr (), st\<lparr>faults := later\<rparr>))"

definition generateId :: "(Catalog, nat) io" where
  "generateId st = (Inr (nextId st), st\<lparr>nextId := Suc (nextId st)\<rparr>)"

text \<open>JavaScript's \<^verbatim>\<open>x || y\<close> on a string that may be \<^verbatim>\<open>null\<close> or \<^verbatim>\<open>undefined\<close>.\<close>

definition truthy :: "string option \<Rightarrow> bool" where
  "truthy x = (case x of None \<Rightarrow> False | Some s \<Rightarrow> s \<noteq> [])"

definition orNull :: "string option option \<Rightarrow> string option" where
  "orNull x = (case x of Some (Some s) \<Rightarrow> (if s = [] then None else Some s) | _ \<Rightarrow> None)"

definition orElse :: "string option \<Rightarrow> string \<Rightarrow> string" where
  "orElse x d = (case x of Some s \<Rightarrow> (if s = [] then d else s) | None \<Rightarrow> d)"

definition numberOrNull :: "nat option option \<Rightarrow> nat option" where
  "numberOrNull x = (case x of Some (Some n) \<Rightarrow> (if n = 0 then None else Some n) | _ \<Rightarrow> None)"

definition ratOrNull :: "rat option option \<Rightarrow> rat option" where
  "ratOrNull x = (case x of Some (Some q) \<Rightarrow> (if q = 0 then None else Some q) | _ \<Rightarrow> None)"

text \<open>
  The platform and the helpers outside the repository's files, as parameters:
  \<^verbatim>\<open>buildSearchTerms\<close> (firestore.ts), the SHA-256 digests, the day of
  \<^verbatim>\<open>toISOString()\<close>, the HTTP transport, the PDF parser and the HTML text extraction
  (cheerio); \<open>Inl\<close> and \<open>None\<close> are their exceptions.
\<close>

record HttpResponse =
  h_status :: nat
  h_contentType :: "string option"
  h_etag :: "string option"
  h_lastModified :: "string option"
  h_data :: string

record Platform =
  buildSearchTerms :: "string \<Rightarrow> string option \<Rightarrow> string option \<Rightarrow> string list"
  hashBuffer :: "string \<Rightarrow> string"
  hashText :: "string \<Rightarrow> string"
  isoDate :: "Date \<Rightarrow> string"
  axiosGet :: "string \<Rightarrow> string option \<Rightarrow> string option \<Rightarrow> exn + HttpResponse"
  pdfGetText :: "string \<Rightarrow> (string \<times> nat) option"
  htmlGetText :: "string \<Rightarrow> exn + (string \<times> string)"

subsubsection \<open>epsteinDocuments\<close>

definition findById :: "nat \<Rightarrow> (Catalog, EpsteinDocument option) io" where
  "findById i =
     bind roundTrip (\<lambda>_ st. (Inr (find (\<lambda>d. e_id d = i) (documents st)), st))"

definition findBySourceUrl :: "string \<Rightarrow> (Catalog, EpsteinDocument option) io" where
  "findBySourceUrl sourceUrl =
     bind roundTrip (\<lambda>_ st. (Inr (find (\<lambda>d. e_sourceUrl d = sourceUrl) (documents st)), st))"

definition findByCanonicalUrlOrSourceUrl ::
  "string \<Rightarrow> string \<Rightarrow> (Catalog, EpsteinDocument option) io" where
  "findByCanonicalUrlOrSourceUrl canonicalUrl sourceUrl =
     bind roundTrip (\<lambda>_ st.
       case find (\<lambda>d. e_canonicalUrl d = Some canonicalUrl) (documents st) of
         Some d \<Rightarrow> (Inr (Some d), st)
       | None \<Rightarrow>
           bind roundTrip
             (\<lambda>_ st. (Inr (find (\<lambda>d. e_sourceUrl d = sourceUrl) (documents st)), st)) st)"

text \<open>The document that \<^verbatim>\<open>create\<close> builds from its argument and the generated id.\<close>

definition newDocument ::
  "Platform \<Rightarrow> Date \<Rightarrow> nat \<Rightarrow> EpsteinDocumentFields \<Rightarrow> EpsteinDocument" where
  "newDocument pf now i data =
     \<lparr>e_id = i,
      e_title = (case p_title data of Some t \<Rightarrow> t | None \<Rightarrow> []),
      e_sourceUrl = (case p_sourceUrl data of Some u \<Rightarrow> u | None \<Rightarrow> []),
      e_canonicalUrl = orNull (p_canonicalUrl data),
      e_finalUrl = None,
      e_documentType = orNull (p_documentType data),
      e_fileType = orElse (p_fileType data) ''pdf'',
      e_contentType = orNull (p_contentType data),
      e_pageCount = numberOrNull (p_pageCount data),
      e_rawText = orNull (p_rawText data),
      e_summary = orNull (p_summary data),
      e_lengthChars = numberOrNull (p_lengthChars data),
      e_textHash = orNull (p_textHash data),
      e_byteHash = orNull (p_byteHash data),
      e_caseNumber = None,
      e_filedDate = None,
      e_parties = [],
      e_keywords = [],
      e_entities = [],
      e_httpEtag = orNull (p_httpEtag data),
      e_httpLastModified = orNull (p_httpLastModified data),
      e_lastFetchedAt = (case p_lastFetchedAt data of Some (Some t) \<Rightarrow> Some t | _ \<Rightarrow> None),
      e_extractionQuality = ratOrNull (p_extractionQuality data),
      e_ocrRequired = (case p_ocrRequired data of Some b \<Rightarrow> b | None \<Rightarrow> False),
      e_discoveryLineage =
        (case p_discoveryLineage data of Some (Some l) \<Rightarrow> Some l | _ \<Rightarrow> None),
      e_status = orElse (p_status data) ''pending'',
      e_searchTerms =
        buildSearchTerms pf (case p_title data of Some t \<Rightarrow> t | None \<Rightarrow> [])
          (case p_summary data of Some s \<Rightarrow> s | None \<Rightarrow> None)
          (case p_rawText data of Some s \<Rightarrow> s | None \<Rightarrow> None),
      e_createdAt = now,
      e_updatedAt = now\<rparr>"

definition create ::
  "Platform \<Rightarrow> Date \<Rightarrow> EpsteinDocumentFields \<Rightarrow> (Catalog, EpsteinDocument) io" where
  "create pf now data =
     bind generateId (\<lambda>i.
       let doc = newDocument pf now i data
       in bind roundTrip (\<lambda>_ st. (Inr doc, st\<lparr>documents := documents st @ [doc]\<rparr>)))"

text \<open>The fields of an update written over a stored document.\<close>

definition applyFields :: "EpsteinDocumentFields \<Rightarrow> EpsteinDocument \<Rightarrow> EpsteinDocument" where
  "applyFields data doc =
     doc\<lparr>e_title := (case p_title data of Some v \<Rightarrow> v | None \<Rightarrow> e_title doc),
         e_sourceUrl := (case p_sourceUrl data of Some v \<Rightarrow> v | None \<Rightarrow> e_sourceUrl doc),
         e_canonicalUrl :=
           (case p_canonicalUrl data of Some v \<Rightarrow> v | None \<Rightarrow> e_canonicalUrl doc),
         e_documentType :=
           (case p_documentType data of Some v \<Rightarrow> v | None \<Rightarrow> e_documentType doc),
         e_fileType := (case p_fileType data of Some v \<Rightarrow> v | None \<Rightarrow> e_fileType doc),
         e_contentType :=
           (case p_contentType data of Some v \<Rightarrow> v | None \<Rightarrow> e_contentType doc),
         e_pageCount := (case p_pageCount data of Some v \<Rightarrow> v | None \<Rightarrow> e_pageCount doc),
         e_rawText := (case p_rawText data of Some v \<Rightarrow> v | None \<Rightarrow> e_rawText doc),
         e_summary := (case p_summary data of Some v \<Rightarrow> v | None \<Rightarrow> e_summary doc),
         e_lengthChars :=
           (case p_lengthChars data of Some v \<Rightarrow> v | None \<Rightarrow> e_lengthChars doc),
         e_textHash := (case p_textHash data of Some v \<Rightarrow> v | None \<Rightarrow> e_textHash doc),
         e_byteHash := (case p_byteHash data of Some v \<Rightarrow> v | None \<Rightarrow> e_byteHash doc),
         e_httpEtag := (case p_httpEtag data of Some v \<Rightarrow> v | None \<Rightarrow> e_httpEtag doc),
         e_httpLastModified :=
           (case p_httpLastModified data of Some v \<Rightarrow> v | None \<Rightarrow> e_httpLastModified doc),
         e_lastFetchedAt :=
           (case p_lastFetchedAt data of Some v \<Rightarrow> v | None \<Rightarrow> e_lastFetchedAt doc),
         e_extractionQuality :=
           (case p_extractionQuality data of Some v \<Rightarrow> v | None \<Rightarrow> e_extractionQuality doc),
         e_ocrRequired :=
           (case p_ocrRequired data of Some v \<Rightarrow> v | None \<Rightarrow> e_ocrRequired doc),
         e_discoveryLineage :=
           (case p_discoveryLineage data of Some v \<Rightarrow> v | None \<Rightarrow> e_discoveryLineage doc),
         e_status := (case p_status data of Some v \<Rightarrow> v | None \<Rightarrow> e_status doc)\<rparr>"

text \<open>
  What \<^verbatim>\<open>update\<close> writes over a document: the fields given, \<^verbatim>\<open>updatedAt\<close>, and the
  search terms when they were rebuilt.
\<close>

definition writeFields ::
  "Date \<Rightarrow> EpsteinDocumentFields \<Rightarrow> string list option \<Rightarrow> EpsteinDocument \<Rightarrow> EpsteinDocument" where
  "writeFields now data terms d =
     (applyFields data d)
       \<lparr>e_updatedAt := now,
        e_searchTerms := (case terms of Some ts \<Rightarrow> ts | None \<Rightarrow> e_searchTerms d)\<rparr>"

text \<open>
  \<^verbatim>\<open>update\<close>: the search terms are rebuilt when the text, title or summary is
  written; then the fields and \<^verbatim>\<open>updatedAt\<close> are written to the document of that id
  (Firestore's \<^verbatim>\<open>update\<close> throws when there is none), which is read back.
\<close>

definition update ::
  "Platform \<Rightarrow> Date \<Rightarrow> nat \<Rightarrow> EpsteinDocumentFields \<Rightarrow> (Catalog, EpsteinDocument option) io" where
  "update pf now i data =
     bind
       (if p_rawText data \<noteq> None \<or> p_title data \<noteq> None \<or> p_summary data \<noteq> None
        then bind (findById i) (\<lambda>existing.
               return
                 (case existing of
                    None \<Rightarrow> None
                  | Some ex \<Rightarrow>
                      Some (buildSearchTerms pf (orElse (p_title data) (e_title ex))
                        (case p_summary data of Some s \<Rightarrow> s | None \<Rightarrow> e_summary ex)
                        (case p_rawText data of Some t \<Rightarrow> t | None \<Rightarrow> e_rawText ex))))
        else return None)
       (\<lambda>terms.
          bind roundTrip (\<lambda>_ st.
            if \<exists>d \<in> set (documents st). e_id d = i
            then bind (findById i) return
                   (st\<lparr>documents :=
                        map (\<lambda>d. if e_id d = i then writeFields now data terms d else d)
                          (documents st)\<rparr>)
            else (Inl FirestoreError, st)))"

definition upsertBySourceUrl ::
  "Platform \<Rightarrow> Date \<Rightarrow> string \<Rightarrow> EpsteinDocumentFields \<Rightarrow> EpsteinDocumentFields \<Rightarrow>
   (Catalog, EpsteinDocument option) io" where
  "upsertBySourceUrl pf now sourceUrl updateData createData =
     bind (findBySourceUrl sourceUrl) (\<lambda>existing.
       case existing of
         Some ex \<Rightarrow> update pf now (e_id ex) updateData
       | None \<Rightarrow> bind (create pf now createData) (\<lambda>d. return (Some d)))"

text \<open>
  \<^verbatim>\<open>findMany\<close> as \<^verbatim>\<open>processAllPending\<close> calls it: the documents whose status is one of
  \<open>statuses\<close>, oldest first, at most \<^verbatim>\<open>take || 20\<close> of them.
\<close>

definition findManyByStatus :: "string list \<Rightarrow> nat \<Rightarrow> (Catalog, EpsteinDocument list) io" where
  "findManyByStatus statuses n =
     bind roundTrip (\<lambda>_ st.
       (Inr (take (if n = 0 then 20 else n)
               (sort_key e_createdAt (filter (\<lambda>d. e_status d \<in> set statuses) (documents st)))),
        st))"

subsubsection \<open>urlAliases and discoveryRuns\<close>

definition findByAliasUrl :: "string \<Rightarrow> (Catalog, UrlAlias option) io" where
  "findByAliasUrl aliasUrl =
     bind roundTrip (\<lambda>_ st. (Inr (find (\<lambda>a. a_aliasUrl a = aliasUrl) (aliases st)), st))"

definition urlAliases_upsert :: "Date \<Rightarrow> string \<Rightarrow> nat \<Rightarrow> string \<Rightarrow> (Catalog, UrlAlias) io" where
  "urlAliases_upsert now aliasUrl documentId discoverySource' =
     bind (findByAliasUrl aliasUrl) (\<lambda>existing.
       case existing of
         Some ex \<Rightarrow>
           bind roundTrip (\<lambda>_ st.
             (Inr (ex\<lparr>a_lastSeen := now\<rparr>),
              st\<lparr>aliases :=
                   map (\<lambda>a. if a_id a = a_id ex then a\<lparr>a_lastSeen := now\<rparr> else a)
                     (aliases st)\<rparr>))
       | None \<Rightarrow>
           bind generateId (\<lambda>i.
             let alias = \<lparr>a_id = i, a_documentId = documentId, a_aliasUrl = aliasUrl,
                          a_discoverySource = discoverySource', a_firstSeen = now,
                          a_lastSeen = now\<rparr>
             in bind roundTrip (\<lambda>_ st. (Inr alias, st\<lparr>aliases := aliases st @ [alias]\<rparr>))))"

definition discoveryRuns_create :: "Date \<Rightarrow> string \<Rightarrow> (Catalog, DiscoveryRun) io" where
  "discoveryRuns_create now source' =
     bind generateId (\<lambda>i.
       let run = \<lparr>r_id = i, r_source = source', r_urlsFound = 0, r_urlsNew = 0,
                  r_urlsChanged = 0, r_errors = 0, r_startedAt = now, r_completedAt = None\<rparr>
       in bind roundTrip (\<lambda>_ st. (Inr run, st\<lparr>runs := runs st @ [run]\<rparr>)))"

definition discoveryRuns_update ::
  "nat \<Rightarrow> nat \<Rightarrow> nat \<Rightarrow> nat \<Rightarrow> nat \<Rightarrow> Date \<Rightarrow> (Catalog, unit) io" where
  "discoveryRuns_update i urlsFound urlsNew urlsChanged errors' completedAt =
     bind roundTrip (\<lambda>_ st.
       if \<exists>r \<in> set (runs st). r_id r = i
       then (Inr (),
             st\<lparr>runs :=
                  map (\<lambda>r. if r_id r = i
                            then r\<lparr>r_urlsFound := urlsFound, r_urlsNew := urlsNew,
                                   r_urlsChanged := urlsChanged, r_errors := errors',
                                   r_completedAt := Some completedAt\<rparr>
                            else r)
                    (runs st)\<rparr>)
       else (Inl FirestoreError, st))"

subsection \<open>The discovery orchestrator (orchestrator.ts)\<close>

definition fileTypeName :: "FileType \<Rightarrow> string" where
  "fileTypeName t = (case t of Pdf \<Rightarrow> ''pdf'' | Html \<Rightarrow> ''html'' | Unknown \<Rightarrow> ''unknown'')"

record PersistCounts =
  newCount :: nat
  updatedCount :: nat
  aliasCount :: nat

text \<open>
  The lineage of an existing document after one more sighting:
  \<^verbatim>\<open>lineage.find(...)\<close> gives the first entry of that source and source hub, whose
  \<^verbatim>\<open>lastSeen\<close> is then overwritten in place; with no such entry one is pushed.
\<close>

fun refreshFirst :: "(LineageEntry \<Rightarrow> bool) \<Rightarrow> string \<Rightarrow> LineageEntry list \<Rightarrow> LineageEntry list" where
  "refreshFirst same today [] = []"
| "refreshFirst same today (e # es) =
     (if same e then e\<lparr>l_lastSeen := today\<rparr> # es else e # refreshFirst same today es)"

definition sameOrigin :: "DeduplicatedDoc \<Rightarrow> LineageEntry \<Rightarrow> bool" where
  "sameOrigin doc e = (l_source e = d_discoverySource doc \<and> l_sourceId e = d_sourceHub doc)"

definition seenAgain :: "string \<Rightarrow> DeduplicatedDoc \<Rightarrow> LineageEntry list \<Rightarrow> LineageEntry list" where
  "seenAgain today doc lineage =
     (case find (sameOrigin doc) lineage of
        Some existingEntry \<Rightarrow> refreshFirst (sameOrigin doc) today lineage
      | None \<Rightarrow>
          lineage @
          [\<lparr>l_source = d_discoverySource doc, l_sourceId = d_sourceHub doc,
            l_firstSeen = today, l_lastSeen = today\<rparr>])"

text \<open>
  The two object literals of the loop of \<^verbatim>\<open>persistDiscoveries\<close>: the update of an
  existing document \<open>ex\<close>, and the document created for a URL not seen before.
\<close>

definition sightingFields ::
  "Platform \<Rightarrow> Date \<Rightarrow> DeduplicatedDoc \<Rightarrow> EpsteinDocument \<Rightarrow> EpsteinDocumentFields" where
  "sightingFields pf now doc ex =
     (let lineage =
            seenAgain (isoDate pf now) doc
              (case e_discoveryLineage ex of Some l \<Rightarrow> l | None \<Rightarrow> [])
      in noFields
           \<lparr>p_canonicalUrl :=
              Some (if truthy (e_canonicalUrl ex) then e_canonicalUrl ex
                    else Some (d_canonicalUrl doc)),
            p_discoveryLineage := Some (Some lineage)\<rparr>)"

definition discoveredFields :: "Platform \<Rightarrow> Date \<Rightarrow> DeduplicatedDoc \<Rightarrow> EpsteinDocumentFields" where
  "discoveredFields pf now doc =
     (let documentType =
            (if d_fileType doc = Pdf
             then (if str_includes (d_url doc) ''EFTA'' then ''EFTA Disclosure''
                   else ''Court Document'')
             else ''Web Page'')
      in noFields
           \<lparr>p_title := Some (d_title doc),
            p_sourceUrl := Some (d_url doc),
            p_canonicalUrl := Some (Some (d_canonicalUrl doc)),
            p_fileType :=
              Some (if d_fileType doc = Unknown then ''pdf'' else fileTypeName (d_fileType doc)),
            p_documentType := Some (Some documentType),
            p_status := Some ''pending'',
            p_discoveryLineage :=
              Some (Some [\<lparr>l_source = d_discoverySource doc,
                           l_sourceId = d_sourceHub doc,
                           l_firstSeen = isoDate pf now,
                           l_lastSeen = isoDate pf now\<rparr>])\<rparr>)"

text \<open>The body of the loop of \<^verbatim>\<open>persistDiscoveries\<close>, for one deduplicated item.\<close>

definition persistDiscovery ::
  "Platform \<Rightarrow> Date \<Rightarrow> DeduplicatedDoc \<Rightarrow> PersistCounts \<Rightarrow> (Catalog, PersistCounts) io" where
  "persistDiscovery pf now doc counts =
     bind (findByCanonicalUrlOrSourceUrl (d_canonicalUrl doc) (d_url doc)) (\<lambda>existing.
       case existing of
         Some ex \<Rightarrow>
           bind (update pf now (e_id ex) (sightingFields pf now doc ex))
             (\<lambda>_.
                let counts1 = counts\<lparr>updatedCount := updatedCount counts + 1\<rparr>
                in if d_url doc \<noteq> e_sourceUrl ex \<and> Some (d_url doc) \<noteq> e_canonicalUrl ex
                   then catch
                          (bind
                             (urlAliases_upsert now (d_url doc) (e_id ex) (d_discoverySource doc))
                             (\<lambda>_. return (counts1\<lparr>aliasCount := aliasCount counts1 + 1\<rparr>)))
                          (\<lambda>_. return counts1)
                   else return counts1)
       | None \<Rightarrow>
           catch
             (bind (create pf now (discoveredFields pf now doc))
                (\<lambda>_. return (counts\<lparr>newCount := newCount counts + 1\<rparr>)))
             (\<lambda>_. return (counts\<lparr>updatedCount := updatedCount counts + 1\<rparr>)))"

fun persistLoop ::
  "Platform \<Rightarrow> Date \<Rightarrow> DeduplicatedDoc list \<Rightarrow> PersistCounts \<Rightarrow> (Catalog, PersistCounts) io" where
  "persistLoop pf now [] counts = return counts"
| "persistLoop pf now (doc # docs) counts =
     bind (persistDiscovery pf now doc counts) (\<lambda>counts1. persistLoop pf now docs counts1)"

definition persistDiscoveries ::
  "Platform \<Rightarrow> Date \<Rightarrow> DeduplicatedDoc list \<Rightarrow> (Catalog, PersistCounts) io" where
  "persistDiscoveries pf now docs =
     persistLoop pf now docs \<lparr>newCount = 0, updatedCount = 0, aliasCount = 0\<rparr>"

datatype DiscoverySource = HubScrape | SitemapParse | IaCdx | All

definition sourceName :: "DiscoverySource \<Rightarrow> string" where
  "sourceName s =
     (case s of HubScrape \<Rightarrow> ''hub-scrape'' | SitemapParse \<Rightarrow> ''sitemap-parse''
      | IaCdx \<Rightarrow> ''ia-cdx'' | All \<Rightarrow> ''all'')"

text \<open>
  What a discoverer hands to the orchestrator: its documents and its error count, or
  the exception it throws. The three discoverers read the network and write only the
  job log, so a run takes their outcomes as arguments.
\<close>

record DiscovererResult =
  dr_documents :: "DiscoveredUrl list"
  dr_errors :: nat

record Discoverers =
  crawlHubPages :: "exn + DiscovererResult"
  discoverFromSitemaps :: "exn + DiscovererResult"
  discoverFromInternetArchive :: "exn + DiscovererResult"

record DiscoveryResult =
  runId :: nat
  totalDiscovered :: nat
  newDocuments :: nat
  existingUpdated :: nat
  aliasesCreated :: nat
  errors :: nat
  bySource :: "(string \<times> nat) list"

text \<open>One of the three blocks of \<^verbatim>\<open>runDiscovery\<close> that run a selected discoverer.\<close>

definition runSource ::
  "bool \<Rightarrow> DiscoverySource \<Rightarrow> exn + DiscovererResult \<Rightarrow>
   TaggedUrl list \<times> (string \<times> nat) list \<times> nat \<Rightarrow> TaggedUrl list \<times> (string \<times> nat) list \<times> nat" where
  "runSource selected source' outcome acc =
     (case acc of (allDiscovered, bySource', totalErrors) \<Rightarrow>
        if selected
        then (case outcome of
                Inr result \<Rightarrow>
                  (allDiscovered @
                   map (\<lambda>d. \<lparr>url = url d, title = title d, sourceHub = sourceHub d,
                              fileType = fileType d, discoverySource = sourceName source'\<rparr>)
                     (dr_documents result),
                   bySource' @ [(sourceName source', length (dr_documents result))],
                   totalErrors + dr_errors result)
              | Inl err \<Rightarrow> (allDiscovered, bySource', totalErrors + 1))
        else acc)"

definition discoverAll :: "DiscoverySource list \<Rightarrow> Discoverers \<Rightarrow> TaggedUrl list \<times> (string \<times> nat) list \<times> nat" where
  "discoverAll sources ds =
     (let runAll = All \<in> set sources
      in runSource (runAll \<or> IaCdx \<in> set sources) IaCdx (discoverFromInternetArchive ds)
           (runSource (runAll \<or> SitemapParse \<in> set sources) SitemapParse (discoverFromSitemaps ds)
              (runSource (runAll \<or> HubScrape \<in> set sources) HubScrape (crawlHubPages ds)
                 ([], [], 0))))"

definition runDiscovery ::
  "Platform \<Rightarrow> Date \<Rightarrow> DiscoverySource list option \<Rightarrow> Discoverers \<Rightarrow> (Catalog, DiscoveryResult) io" where
  "runDiscovery pf now options ds =
     (let sources = (case options of Some s \<Rightarrow> s | None \<Rightarrow> [All])
      in bind (discoveryRuns_create now (str_join '','' (map sourceName sources))) (\<lambda>run.
           case discoverAll sources ds of (allDiscovered, bySource', totalErrors) \<Rightarrow>
             (let deduplicated = deduplicateUrls allDiscovered
              in bind (persistDiscoveries pf now deduplicated) (\<lambda>counts.
                   bind
                     (discoveryRuns_update (r_id run) (length deduplicated) (newCount counts)
                        (updatedCount counts) totalErrors now)
                     (\<lambda>_. return
                        \<lparr>runId = r_id run,
                         totalDiscovered = length deduplicated,
                         newDocuments = newCount counts,
                         existingUpdated = updatedCount counts,
                         aliasesCreated = aliasCount counts,
                         errors = totalErrors,
                         bySource = bySource'\<rparr>)))))"

subsection \<open>The extraction pipeline (extract.ts)\<close>

definition MIN_QUALITY_THRESHOLD :: rat where
  "MIN_QUALITY_THRESHOLD = 50"

record FetchResult =
  f_buffer :: string
  f_contentType :: string
  f_etag :: "string option"
  f_lastModified :: "string option"
  f_statusCode :: nat

text \<open>
  \<^verbatim>\<open>fetchWithConditional\<close>: the conditional headers are sent when the stored values are
  non-empty; axios throws on a transport failure and, by \<^verbatim>\<open>validateStatus\<close>, on a
  status of 500 and above. \<open>Inr None\<close> is the \<^verbatim>\<open>null\<close> of a 304.
\<close>

definition fetchWithConditional ::
  "Platform \<Rightarrow> string \<Rightarrow> string option \<Rightarrow> string option \<Rightarrow> exn + FetchResult option" where
  "fetchWithConditional pf url' existingEtag existingLastModified =
     (case axiosGet pf url'
             (if truthy existingEtag then existingEtag else None)
             (if truthy existingLastModified then existingLastModified else None) of
        Inl err \<Rightarrow> Inl err
      | Inr response \<Rightarrow>
          if \<not> h_status response < 500 then Inl (HttpError (h_status response))
          else if h_status response = 304 then Inr None
          else if h_status response = 403 \<or> h_status response = 429
          then Inl (RateLimited (h_status response))
          else if h_status response \<noteq> 200 then Inl (HttpError (h_status response))
          else Inr (Some
                 \<lparr>f_buffer = h_data response,
                  f_contentType = orElse (h_contentType response) [],
                  f_etag = (if truthy (h_etag response) then h_etag response else None),
                  f_lastModified =
                    (if truthy (h_lastModified response) then h_lastModified response else None),
                  f_statusCode = h_status response\<rparr>))"

text \<open>\<^verbatim>\<open>extractPdfText\<close> catches what the PDF parser throws.\<close>

definition extractPdfText :: "Platform \<Rightarrow> string \<Rightarrow> string \<times> nat" where
  "extractPdfText pf buffer =
     (case pdfGetText pf buffer of Some (text, pageCount) \<Rightarrow> (text, pageCount) | None \<Rightarrow> ([], 0))"

text \<open>
  A JavaScript number is an IEEE 754 double. A finite double is modelled as the
  rational it denotes, and an arithmetic operation as the exact operation followed
  by \<open>toDouble\<close>, the rounding to the nearest double with ties to the even
  significand: a positive \<open>x\<close> with \<open>2^e \<le> x < 2^(e+1)\<close> is rounded to a multiple of its
  unit in the last place, \<open>2^(e-52)\<close>. The exponent is not bounded here, so the model is
  that of the doubles wherever no operation overflows or underflows; integers below
  \<open>2^53\<close> are doubles as they are, and so are the length of a string and a page count.
\<close>

definition pow2 :: "int \<Rightarrow> rat" where
  "pow2 k = (if 0 \<le> k then 2 ^ nat k else 1 / 2 ^ nat (- k))"

definition exponentOf :: "rat \<Rightarrow> int" where
  "exponentOf x = (if 1 \<le> x then bitlen \<lfloor>x\<rfloor> - 1 else - bitlen (\<lceil>1 / x\<rceil> - 1))"

definition ulp :: "rat \<Rightarrow> rat" where
  "ulp x = pow2 (exponentOf \<bar>x\<bar> - 52)"

definition roundHalfEven :: "rat \<Rightarrow> int" where
  "roundHalfEven y =
     (let f = \<lfloor>y\<rfloor>; d = y - of_int f
      in if d < 1 / 2 then f else if 1 / 2 < d then f + 1 else if even f then f else f + 1)"

definition toDouble :: "rat \<Rightarrow> rat" where
  "toDouble x = (if x = 0 then 0 else of_int (roundHalfEven (x / ulp x)) * ulp x)"

text \<open>
  \<^verbatim>\<open>Math.round\<close> returns the integer nearest to its argument, a half upwards; the
  result is exact.
\<close>

definition Math_round :: "rat \<Rightarrow> int" where
  "Math_round x = \<lfloor>x + 1 / 2\<rfloor>"

record Quality =
  quality :: rat
  needsOcr :: bool

definition computeQuality :: "string \<Rightarrow> nat \<Rightarrow> string \<Rightarrow> Quality" where
  "computeQuality text pageCount fileType' =
     (if fileType' \<noteq> ''pdf'' \<or> pageCount = 0
      then \<lparr>quality = (if length text > 0 then 100 else 0), needsOcr = False\<rparr>
      else (let charsPerPage = toDouble (of_nat (length text) / of_nat pageCount)
            in \<lparr>quality = toDouble (of_int (Math_round (toDouble (charsPerPage * 100))) / 100),
                needsOcr = (charsPerPage < MIN_QUALITY_THRESHOLD)\<rparr>))"

text \<open>What the extraction of one fetched body yields.\<close>

record Extracted =
  x_rawText :: string
  x_pageCount :: nat
  x_extractedTitle :: string
  x_fileType :: string

definition liftOutcome :: "exn + 'a \<Rightarrow> ('s, 'a) io" where
  "liftOutcome r = (\<lambda>st. (r, st))"

text \<open>The block \<^emph>\<open>Detect content type and extract text\<close>.\<close>

definition extractText :: "Platform \<Rightarrow> string \<Rightarrow> string \<Rightarrow> FetchResult \<Rightarrow> exn + Extracted" where
  "extractText pf url' title' fetched =
     (let isPdf = (str_includes (f_contentType fetched) ''pdf'' \<or>
                   endsWith (toLowerCase url') ''.pdf'');
          isHtml = (str_includes (f_contentType fetched) ''html'' \<or>
                    str_includes (f_contentType fetched) ''xhtml'')
      in if isPdf
         then (case extractPdfText pf (f_buffer fetched) of (text, pageCount) \<Rightarrow>
                 Inr \<lparr>x_rawText = text, x_pageCount = pageCount, x_extractedTitle = title',
                      x_fileType = ''pdf''\<rparr>)
         else if isHtml
         then (case htmlGetText pf (f_buffer fetched) of
                 Inl err \<Rightarrow> Inl err
               | Inr (text, htmlTitle) \<Rightarrow>
                   Inr \<lparr>x_rawText = text, x_pageCount = 1,
                        x_extractedTitle = (if htmlTitle = [] then title' else htmlTitle),
                        x_fileType = ''html''\<rparr>)
         else Inr \<lparr>x_rawText = [], x_pageCount = 0, x_extractedTitle = title',
                   x_fileType = ''pdf''\<rparr>)"

text \<open>The block \<^emph>\<open>Determine final status\<close>.\<close>

definition finalStatus :: "bool \<Rightarrow> string \<Rightarrow> string" where
  "finalStatus needsOcr' rawText =
     (if needsOcr' then ''needs_ocr''
      else if rawText \<noteq> [] \<and> length rawText > 50 then ''indexed''
      else ''error'')"

text \<open>The fields of the update that persists an extraction.\<close>

definition extractionFields ::
  "Platform \<Rightarrow> Date \<Rightarrow> string \<Rightarrow> FetchResult \<Rightarrow> Extracted \<Rightarrow> EpsteinDocumentFields" where
  "extractionFields pf now url' fetched ex =
     (let rawText = x_rawText ex;
          textHashValue = (if rawText \<noteq> [] then Some (hashText pf rawText) else None);
          q = computeQuality rawText (x_pageCount ex) (x_fileType ex);
          status = finalStatus (needsOcr q) rawText
      in noFields
           \<lparr>p_title := Some (x_extractedTitle ex),
            p_rawText := Some (Some (if rawText \<noteq> [] then rawText else ''[No text extracted]'')),
            p_pageCount := Some (Some (x_pageCount ex)),
            p_lengthChars := Some (Some (length rawText)),
            p_fileType := Some (x_fileType ex),
            p_contentType := Some (Some (f_contentType fetched)),
            p_byteHash := Some (Some (hashBuffer pf (f_buffer fetched))),
            p_textHash := Some textHashValue,
            p_httpEtag := Some (if truthy (f_etag fetched) then f_etag fetched else None),
            p_httpLastModified :=
              Some (if truthy (f_lastModified fetched) then f_lastModified fetched else None),
            p_lastFetchedAt := Some (Some now),
            p_extractionQuality := Some (Some (quality q)),
            p_ocrRequired := Some (needsOcr q),
            p_status := Some status,
            p_canonicalUrl := Some (Some (normalizeUrl url'))\<rparr>)"

text \<open>
  The object literals of \<^verbatim>\<open>processEpsteinDocument\<close>: the two arguments of the upsert
  that marks the document as processing, the update after a 304, the update after a
  byte-hash match, and the two arguments of the upsert of the \<^verbatim>\<open>catch\<close> block.
\<close>

definition markProcessing :: EpsteinDocumentFields where
  "markProcessing = noFields\<lparr>p_status := Some ''processing''\<rparr>"

definition newProcessing :: "string \<Rightarrow> string \<Rightarrow> EpsteinDocumentFields" where
  "newProcessing url' title' =
     noFields
       \<lparr>p_title := Some title',
        p_sourceUrl := Some url',
        p_canonicalUrl := Some (Some (normalizeUrl url')),
        p_fileType := Some ''pdf'',
        p_status := Some ''processing''\<rparr>"

definition notModifiedFields :: "Date \<Rightarrow> EpsteinDocument option \<Rightarrow> EpsteinDocumentFields" where
  "notModifiedFields now existing =
     noFields
       \<lparr>p_status :=
          Some (case existing of
                  Some ex \<Rightarrow>
                    (if e_status ex = ''indexed'' then ''indexed''
                     else if e_status ex \<noteq> [] then e_status ex
                     else ''pending'')
                | None \<Rightarrow> ''pending''),
        p_lastFetchedAt := Some (Some now)\<rparr>"

definition unchangedFields :: "Date \<Rightarrow> FetchResult \<Rightarrow> EpsteinDocument \<Rightarrow> EpsteinDocumentFields" where
  "unchangedFields now fetched ex =
     noFields
       \<lparr>p_status := Some ''indexed'',
        p_lastFetchedAt := Some (Some now),
        p_httpEtag := Some (if truthy (f_etag fetched) then f_etag fetched else e_httpEtag ex),
        p_httpLastModified :=
          Some (if truthy (f_lastModified fetched) then f_lastModified fetched
                else e_httpLastModified ex)\<rparr>"

definition markError :: EpsteinDocumentFields where
  "markError = noFields\<lparr>p_status := Some ''error''\<rparr>"

definition newError :: "string \<Rightarrow> string \<Rightarrow> EpsteinDocumentFields" where
  "newError url' title' =
     noFields
       \<lparr>p_title := Some title',
        p_sourceUrl := Some url',
        p_canonicalUrl := Some (Some (normalizeUrl url')),
        p_status := Some ''error''\<rparr>"

text \<open>
  The test \<^emph>\<open>content unchanged\<close>: the existing document, when its byte hash is that
  of the fetched bytes and its status is \<^verbatim>\<open>indexed\<close>.
\<close>

definition hashMatch :: "string \<Rightarrow> EpsteinDocument option \<Rightarrow> EpsteinDocument option" where
  "hashMatch byteHashValue existing =
     (case existing of
        Some ex \<Rightarrow>
          if e_byteHash ex = Some byteHashValue \<and> e_status ex = ''indexed'' then Some ex else None
      | None \<Rightarrow> None)"

text \<open>The body of the \<^verbatim>\<open>try\<close> block of \<^verbatim>\<open>processEpsteinDocument\<close>.\<close>

definition processBody :: "Platform \<Rightarrow> Date \<Rightarrow> string \<Rightarrow> string \<Rightarrow> (Catalog, unit) io" where
  "processBody pf now url' title' =
     bind (findBySourceUrl url') (\<lambda>existing.
     bind (upsertBySourceUrl pf now url' markProcessing (newProcessing url' title')) (\<lambda>_.
     bind (liftOutcome
             (fetchWithConditional pf url'
                (case existing of Some ex \<Rightarrow> e_httpEtag ex | None \<Rightarrow> None)
                (case existing of Some ex \<Rightarrow> e_httpLastModified ex | None \<Rightarrow> None)))
       (\<lambda>fetchResult.
          case fetchResult of
            None \<Rightarrow>
              bind (findBySourceUrl url') (\<lambda>doc.
                case doc of
                  Some d \<Rightarrow>
                    bind (update pf now (e_id d) (notModifiedFields now existing))
                      (\<lambda>_. return ())
                | None \<Rightarrow> return ())
          | Some fetched \<Rightarrow>
              (case hashMatch (hashBuffer pf (f_buffer fetched)) existing of
                 Some ex \<Rightarrow>
                   bind (update pf now (e_id ex) (unchangedFields now fetched ex))
                     (\<lambda>_. return ())
               | None \<Rightarrow>
                   bind (liftOutcome (extractText pf url' title' fetched)) (\<lambda>ex.
                     bind (findBySourceUrl url') (\<lambda>doc.
                       case doc of
                         Some d \<Rightarrow>
                           bind (update pf now (e_id d)
                                   (extractionFields pf now url' fetched ex))
                             (\<lambda>_. return ())
                       | None \<Rightarrow> return ()))))))"

definition processEpsteinDocument ::
  "Platform \<Rightarrow> Date \<Rightarrow> string \<Rightarrow> string \<Rightarrow> (Catalog, unit) io" where
  "processEpsteinDocument pf now url' title' =
     catch (processBody pf now url' title')
       (\<lambda>err.
          bind (upsertBySourceUrl pf now url' markError (newError url' title'))
            (\<lambda>_. return ()))"

record BatchResult =
  processed :: nat
  batchErrors :: nat

text \<open>
  The loop of \<^verbatim>\<open>processAllPending\<close>: the \<^verbatim>\<open>try\<close> around each document counts what
  \<^verbatim>\<open>processEpsteinDocument\<close> throws; the pauses between documents are left out.
\<close>

fun processLoop ::
  "Platform \<Rightarrow> Date \<Rightarrow> EpsteinDocument list \<Rightarrow> BatchResult \<Rightarrow> (Catalog, BatchResult) io" where
  "processLoop pf now [] res = return res"
| "processLoop pf now (doc # pending) res =
     (\<lambda>st. case processEpsteinDocument pf now (e_sourceUrl doc) (e_title doc) st of
              (Inr _, st1) \<Rightarrow>
                processLoop pf now pending (res\<lparr>processed := processed res + 1\<rparr>) st1
            | (Inl _, st1) \<Rightarrow>
                processLoop pf now pending (res\<lparr>batchErrors := batchErrors res + 1\<rparr>) st1)"

definition processAllPending :: "Platform \<Rightarrow> Date \<Rightarrow> nat option \<Rightarrow> (Catalog, BatchResult) io" where
  "processAllPending pf now maxDocuments =
     bind (findManyByStatus [''pending'', ''needs_ocr'']
             (case maxDocuments of Some n \<Rightarrow> n | None \<Rightarrow> 500))
       (\<lambda>pending. processLoop pf now pending \<lparr>processed = 0, batchErrors = 0\<rparr>)"

subsection \<open>Notions used in the statements\<close>

text \<open>
  What the catalog's operations compute when no round trip fails, as functions of the
  list of documents: the document that \<^verbatim>\<open>findByCanonicalUrlOrSourceUrl\<close> returns, the
  search terms that \<^verbatim>\<open>update\<close> rebuilds, and the documents after an \<^verbatim>\<open>update\<close>.
\<close>

definition lookup :: "string \<Rightarrow> string \<Rightarrow> EpsteinDocument list \<Rightarrow> EpsteinDocument option" where
  "lookup c u docs =
     (case find (\<lambda>d. e_canonicalUrl d = Some c) docs of
        Some d \<Rightarrow> Some d
      | None \<Rightarrow> find (\<lambda>d. e_sourceUrl d = u) docs)"

definition rebuiltTerms ::
  "Platform \<Rightarrow> nat \<Rightarrow> EpsteinDocumentFields \<Rightarrow> EpsteinDocument list \<Rightarrow> string list option" where
  "rebuiltTerms pf i data docs =
     (if p_rawText data \<noteq> None \<or> p_title data \<noteq> None \<or> p_summary data \<noteq> None
      then (case find (\<lambda>d. e_id d = i) docs of
              None \<Rightarrow> None
            | Some ex \<Rightarrow>
                Some (buildSearchTerms pf (orElse (p_title data) (e_title ex))
                  (case p_summary data of Some s \<Rightarrow> s | None \<Rightarrow> e_summary ex)
                  (case p_rawText data of Some t \<Rightarrow> t | None \<Rightarrow> e_rawText ex)))
      else None)"

definition updated ::
  "Platform \<Rightarrow> Date \<Rightarrow> nat \<Rightarrow> EpsteinDocumentFields \<Rightarrow> EpsteinDocument list \<Rightarrow> EpsteinDocument list" where
  "updated pf now i data docs =
     map (\<lambda>d. if e_id d = i then writeFields now data (rebuiltTerms pf i data docs) d else d) docs"

text \<open>
  A well-formed catalog: document ids are the keys of the collection, so no two
  documents share one, and every id in use has been generated.
\<close>

definition wf_catalog :: "Catalog \<Rightarrow> bool" where
  "wf_catalog st =
     (distinct (map e_id (documents st)) \<and> list_all (\<lambda>d. e_id d < nextId st) (documents st))"

text \<open>
  The lineage of a document (\<^verbatim>\<open>discoveryLineage || []\<close>), the document that the update
  of a sighting makes of the matched document \<open>ex\<close>, and the documents after one step
  of \<^verbatim>\<open>persistDiscoveries\<close> when the next generated id is \<open>i\<close>.
\<close>

definition lineageOf :: "EpsteinDocument \<Rightarrow> LineageEntry list" where
  "lineageOf d = (case e_discoveryLineage d of Some l \<Rightarrow> l | None \<Rightarrow> [])"

definition sighted :: "Platform \<Rightarrow> Date \<Rightarrow> DeduplicatedDoc \<Rightarrow> EpsteinDocument \<Rightarrow> EpsteinDocument" where
  "sighted pf now doc ex =
     ex\<lparr>e_canonicalUrl :=
          (if truthy (e_canonicalUrl ex) then e_canonicalUrl ex else Some (d_canonicalUrl doc)),
        e_discoveryLineage := Some (seenAgain (isoDate pf now) doc (lineageOf ex)),
        e_updatedAt := now\<rparr>"

definition persisted ::
  "Platform \<Rightarrow> Date \<Rightarrow> DeduplicatedDoc \<Rightarrow> nat \<Rightarrow> EpsteinDocument list \<Rightarrow> EpsteinDocument list" where
  "persisted pf now doc i docs =
     (case lookup (d_canonicalUrl doc) (d_url doc) docs of
        Some ex \<Rightarrow> updated pf now (e_id ex) (sightingFields pf now doc ex) docs
      | None \<Rightarrow> docs @ [newDocument pf now i (discoveredFields pf now doc)])"

text \<open>
  An item is settled in a list of documents when the store finds a document for it
  that has a canonical URL and a lineage entry of the item's source and source hub.
\<close>

definition settled :: "DeduplicatedDoc \<Rightarrow> EpsteinDocument list \<Rightarrow> bool" where
  "settled doc docs =
     (case lookup (d_canonicalUrl doc) (d_url doc) docs of
        None \<Rightarrow> False
      | Some ex \<Rightarrow> truthy (e_canonicalUrl ex) \<and> (\<exists>e \<in> set (lineageOf ex). sameOrigin doc e))"

text \<open>
  Two lineage entries that differ at most in \<^verbatim>\<open>lastSeen\<close>; two documents that differ
  at most in the \<^verbatim>\<open>lastSeen\<close> of their lineage entries; and two that differ at most in
  that and in \<^verbatim>\<open>updatedAt\<close>.
\<close>

definition sameButLastSeen :: "LineageEntry \<Rightarrow> LineageEntry \<Rightarrow> bool" where
  "sameButLastSeen e e' = (e' = e\<lparr>l_lastSeen := l_lastSeen e'\<rparr>)"

definition onlyLastSeenRefreshed :: "EpsteinDocument \<Rightarrow> EpsteinDocument \<Rightarrow> bool" where
  "onlyLastSeenRefreshed d d' =
     (list_all2 sameButLastSeen (lineageOf d) (lineageOf d') \<and>
      d' = d\<lparr>e_discoveryLineage := e_discoveryLineage d'\<rparr>)"

definition onlyRefreshed :: "EpsteinDocument \<Rightarrow> EpsteinDocument \<Rightarrow> bool" where
  "onlyRefreshed d d' =
     (list_all2 sameButLastSeen (lineageOf d) (lineageOf d') \<and>
      (e_discoveryLineage d = None \<longleftrightarrow> e_discoveryLineage d' = None) \<and>
      d' = d\<lparr>e_discoveryLineage := e_discoveryLineage d', e_updatedAt := e_updatedAt d'\<rparr>)"

text \<open>
  A lineage that has kept its entries: each is still there, in its place, changed at
  most in \<^verbatim>\<open>lastSeen\<close>; and a list of documents whose documents are still there, each
  with its id and with a lineage that has kept its entries.
\<close>

definition keptLineage :: "LineageEntry list \<Rightarrow> LineageEntry list \<Rightarrow> bool" where
  "keptLineage l l' = (length l \<le> length l' \<and> (\<forall>j < length l. sameButLastSeen (l ! j) (l' ! j)))"

definition lineagesKept :: "EpsteinDocument list \<Rightarrow> EpsteinDocument list \<Rightarrow> bool" where
  "lineagesKept docs docs' =
     (length docs \<le> length docs' \<and>
      (\<forall>i < length docs. e_id (docs' ! i) = e_id (docs ! i) \<and>
         keptLineage (lineageOf (docs ! i)) (lineageOf (docs' ! i))))"

text \<open>
  A document as the orchestrator creates it for a discovered item: the item's URL as
  source URL, and the file type and document type that follow from the item's
  classified file type.
\<close>

definition discoveredAs :: "DeduplicatedDoc \<Rightarrow> EpsteinDocument \<Rightarrow> bool" where
  "discoveredAs doc r =
     (e_sourceUrl r = d_url doc \<and>
      e_fileType r = (case d_fileType doc of Html \<Rightarrow> ''html'' | Pdf \<Rightarrow> ''pdf'' | Unknown \<Rightarrow> ''pdf'') \<and>
      e_documentType r =
        Some (case d_fileType doc of
                Pdf \<Rightarrow> (if str_includes (d_url doc) ''EFTA'' then ''EFTA Disclosure''
                        else ''Court Document'')
              | Html \<Rightarrow> ''Web Page''
              | Unknown \<Rightarrow> ''Web Page''))"

subsection \<open>Concrete inputs for the examples\<close>

definition examplePlatform :: Platform where
  "examplePlatform =
     \<lparr>buildSearchTerms = (\<lambda>t s r. [t]),
      hashBuffer = (\<lambda>b. ''sha:'' @ b),
      hashText = (\<lambda>t. ''sha:'' @ t),
      isoDate = (\<lambda>t. if t < 86400000 then ''1970-01-01'' else ''1970-01-02''),
      axiosGet = (\<lambda>u etag modified. Inl NetworkError),
      pdfGetText = (\<lambda>b. None),
      htmlGetText = (\<lambda>b. Inl ParseError)\<rparr>"

definition emptyCatalog :: Catalog where
  "emptyCatalog = \<lparr>documents = [], aliases = [], runs = [], nextId = 0, faults = []\<rparr>"

definition exampleDiscoverers :: Discoverers where
  "exampleDiscoverers =
     \<lparr>crawlHubPages =
        Inr \<lparr>dr_documents =
               [\<lparr>url = ''https://www.justice.gov/epstein/a.pdf'', title = ''A'',
                 sourceHub = ''https://www.justice.gov/epstein'', fileType = Pdf\<rparr>],
             dr_errors = 0\<rparr>,
      discoverFromSitemaps = Inl NetworkError,
      discoverFromInternetArchive = Inl NetworkError\<rparr>"

definition exampleItem :: DeduplicatedDoc where
  "exampleItem =
     \<lparr>d_url = ''https://www.justice.gov/epstein/a.pdf'',
      d_canonicalUrl = ''https://www.justice.gov/epstein/a.pdf'',
      d_title = ''A'', d_fileType = Pdf, d_discoverySource = ''hub-scrape'',
      d_sourceHub = ''https://www.justice.gov/epstein''\<rparr>"

definition exampleDocument :: "Date \<Rightarrow> string \<Rightarrow> EpsteinDocument" where
  "exampleDocument updatedAt lastSeen =
     \<lparr>e_id = 1, e_title = ''A'',
      e_sourceUrl = ''https://www.justice.gov/epstein/a.pdf'',
      e_canonicalUrl = Some ''https://www.justice.gov/epstein/a.pdf'',
      e_finalUrl = None, e_documentType = Some ''Court Document'',
      e_fileType = ''pdf'', e_contentType = None, e_pageCount = None,
      e_rawText = None, e_summary = None, e_lengthChars = None,
      e_textHash = None, e_byteHash = None, e_caseNumber = None,
      e_filedDate = None, e_parties = [], e_keywords = [],
      e_entities = [], e_httpEtag = None, e_httpLastModified = None,
      e_lastFetchedAt = None, e_extractionQuality = None,
      e_ocrRequired = False,
      e_discoveryLineage =
        Some [\<lparr>l_source = ''hub-scrape'',
               l_sourceId = ''https://www.justice.gov/epstein'',
               l_firstSeen = ''1970-01-01'', l_lastSeen = lastSeen\<rparr>],
      e_status = ''pending'', e_searchTerms = [''A''],
      e_createdAt = 1000, e_updatedAt = updatedAt\<rparr>"

definition exampleCatalog :: Catalog where
  "exampleCatalog =
     \<lparr>documents = [exampleDocument 1000 ''1970-01-01''], aliases = [], runs = [],
      nextId = 2, faults = []\<rparr>"

definition exampleArchiveItem :: DeduplicatedDoc where
  "exampleArchiveItem =
     \<lparr>d_url = ''http://www.justice.gov/epstein/a.pdf'',
      d_canonicalUrl = ''https://www.justice.gov/epstein/a.pdf'',
      d_title = ''a'', d_fileType = Unknown, d_discoverySource = ''ia-cdx'',
      d_sourceHub = ''cdx''\<rparr>"

subsection \<open>Notions used in the statements on extraction\<close>

text \<open>
  The documents after \<^verbatim>\<open>upsertBySourceUrl\<close> when the next generated id is \<open>i\<close>, the id
  generated next after it, and the catalog after the upsert that marks a document as
  processing.
\<close>

definition upserted ::
  "Platform \<Rightarrow> Date \<Rightarrow> string \<Rightarrow> EpsteinDocumentFields \<Rightarrow> EpsteinDocumentFields \<Rightarrow> nat \<Rightarrow>
   EpsteinDocument list \<Rightarrow> EpsteinDocument list" where
  "upserted pf now u upd cre i docs =
     (case find (\<lambda>d. e_sourceUrl d = u) docs of
        Some ex \<Rightarrow> updated pf now (e_id ex) upd docs
      | None \<Rightarrow> docs @ [newDocument pf now i cre])"

definition upsertedId :: "string \<Rightarrow> nat \<Rightarrow> EpsteinDocument list \<Rightarrow> nat" where
  "upsertedId u i docs = (case find (\<lambda>d. e_sourceUrl d = u) docs of Some ex \<Rightarrow> i | None \<Rightarrow> Suc i)"

definition marked :: "Platform \<Rightarrow> Date \<Rightarrow> string \<Rightarrow> string \<Rightarrow> Catalog \<Rightarrow> Catalog" where
  "marked pf now u title' st =
     st\<lparr>nextId := upsertedId u (nextId st) (documents st),
        documents := upserted pf now u markProcessing (newProcessing u title') (nextId st)
                       (documents st)\<rparr>"

text \<open>The conditional fetch that \<^verbatim>\<open>processEpsteinDocument\<close> makes for the record it found.\<close>

definition fetchFor :: "Platform \<Rightarrow> string \<Rightarrow> EpsteinDocument option \<Rightarrow> exn + FetchResult option" where
  "fetchFor pf u existing =
     fetchWithConditional pf u
       (case existing of Some ex \<Rightarrow> e_httpEtag ex | None \<Rightarrow> None)
       (case existing of Some ex \<Rightarrow> e_httpLastModified ex | None \<Rightarrow> None)"

text \<open>
  A per-item failure: the fetch throws (transport, 5xx, 403 or 429, any other status
  but 200 and 304) or, when fresh bytes arrived that are not skipped as unchanged, the
  PDF parser fails on a PDF or the HTML extraction throws. The status recorded for a
  source URL, and the documents that \<^verbatim>\<open>processAllPending\<close> reads.
\<close>

definition itemFailed :: "Platform \<Rightarrow> string \<Rightarrow> string \<Rightarrow> EpsteinDocument option \<Rightarrow> bool" where
  "itemFailed pf u t existing =
     (case fetchFor pf u existing of
        Inl e \<Rightarrow> True
      | Inr None \<Rightarrow> False
      | Inr (Some fetched) \<Rightarrow>
          hashMatch (hashBuffer pf (f_buffer fetched)) existing = None \<and>
          (if str_includes (f_contentType fetched) ''pdf'' \<or> endsWith (toLowerCase u) ''.pdf''
           then pdfGetText pf (f_buffer fetched) = None
           else isl (extractText pf u t fetched)))"

definition recordedStatus :: "string \<Rightarrow> Catalog \<Rightarrow> string option" where
  "recordedStatus u st = map_option e_status (find (\<lambda>d. e_sourceUrl d = u) (documents st))"

definition pendingDocuments :: "nat option \<Rightarrow> EpsteinDocument list \<Rightarrow> EpsteinDocument list" where
  "pendingDocuments maxDocuments docs =
     take (case maxDocuments of Some n \<Rightarrow> (if n = 0 then 20 else n) | None \<Rightarrow> 500)
       (sort_key e_createdAt (filter (\<lambda>d. e_status d \<in> {''pending'', ''needs_ocr''}) docs))"

text \<open>
  The characters per page of an extraction, as the exact ratio; the test that flags
  it for OCR: a PDF with pages whose characters per page are below the threshold; and
  the score the code computes for a PDF with pages: the ratio, its hundredfold and the
  hundredth of the rounded hundredfold each rounded to a double.
\<close>

definition charsPerPage :: "Extracted \<Rightarrow> rat" where
  "charsPerPage x = of_nat (length (x_rawText x)) / of_nat (x_pageCount x)"

definition lowQualityPdf :: "Extracted \<Rightarrow> bool" where
  "lowQualityPdf x = (x_fileType x = ''pdf'' \<and> 0 < x_pageCount x \<and> charsPerPage x < 50)"

definition roundedScore :: "Extracted \<Rightarrow> rat" where
  "roundedScore x =
     toDouble (of_int (Math_round (toDouble (toDouble (charsPerPage x) * 100))) / 100)"

text \<open>
  The record \<open>ex\<close> after a fetch found its content unchanged, and two documents that
  differ at most in \<^verbatim>\<open>status\<close>, \<^verbatim>\<open>lastFetchedAt\<close>, \<^verbatim>\<open>httpEtag\<close> and \<^verbatim>\<open>httpLastModified\<close>.
\<close>

definition refetched :: "Date \<Rightarrow> FetchResult \<Rightarrow> EpsteinDocument \<Rightarrow> EpsteinDocument" where
  "refetched now fetched ex =
     ex\<lparr>e_httpEtag := (if truthy (f_etag fetched) then f_etag fetched else e_httpEtag ex),
        e_httpLastModified :=
          (if truthy (f_lastModified fetched) then f_lastModified fetched
           else e_httpLastModified ex),
        e_lastFetchedAt := Some now,
        e_updatedAt := now\<rparr>"

definition onlyFetchMetadataWritten :: "EpsteinDocument \<Rightarrow> EpsteinDocument \<Rightarrow> bool" where
  "onlyFetchMetadataWritten d d' =
     (d' = d\<lparr>e_status := e_status d', e_lastFetchedAt := e_lastFetchedAt d',
             e_httpEtag := e_httpEtag d', e_httpLastModified := e_httpLastModified d'\<rparr>)"

subsection \<open>Concrete inputs for the examples on extraction\<close>

text \<open>
  A server that answers every request with the same scanned PDF, of three pages and
  forty characters; a server that answers 429; and a catalog whose one document has
  been indexed from those bytes.
\<close>

definition scanServer :: Platform where
  "scanServer =
     examplePlatform
       \<lparr>axiosGet :=
          (\<lambda>u etag modified.
             Inr \<lparr>h_status = 200, h_contentType = Some ''application/pdf'', h_etag = Some ''v1'',
                  h_lastModified = None, h_data = ''SCAN''\<rparr>),
        pdfGetText := (\<lambda>b. Some (replicate 40 CHR ''a'', 3))\<rparr>"

definition throttlingServer :: Platform where
  "throttlingServer =
     examplePlatform
       \<lparr>axiosGet :=
          (\<lambda>u etag modified.
             Inr \<lparr>h_status = 429, h_contentType = None, h_etag = None,
                  h_lastModified = None, h_data = []\<rparr>)\<rparr>"

definition indexedDocument :: EpsteinDocument where
  "indexedDocument =
     (exampleDocument 1000 ''1970-01-01'')
       \<lparr>e_rawText := Some ''text of the scan'', e_byteHash := Some ''sha:SCAN'',
        e_status := ''indexed''\<rparr>"

definition indexedCatalog :: Catalog where
  "indexedCatalog =
     \<lparr>documents = [indexedDocument], aliases = [], runs = [], nextId = 2, faults = []\<rparr>"

subsection \<open>Notions used in the statements on normalisation\<close>




subsection \<open>Notions used in the statements on EFTA inference\<close>





subsection \<open>Concrete inputs for the example on EFTA inference\<close>




section \<open>Properties\<close>

subsection \<open>The catalog's operations when no round trip fails\<close>

lemma roundTrip_ok: "faults st = [] \<Longrightarrow> roundTrip st = (Inr (), st)"
  by (simp add: roundTrip_def)

lemma findById_ok:
  "faults st = [] \<Longrightarrow> findById i st = (Inr (find (\<lambda>d. e_id d = i) (documents st)), st)"
  by (simp add: findById_def bind_def roundTrip_ok)

lemma findBySourceUrl_ok:
  "faults st = [] \<Longrightarrow>
   findBySourceUrl u st = (Inr (find (\<lambda>d. e_sourceUrl d = u) (documents st)), st)"
  by (simp add: findBySourceUrl_def bind_def roundTrip_ok)

lemma findByCanonicalUrlOrSourceUrl_ok:
  "faults st = [] \<Longrightarrow>
   findByCanonicalUrlOrSourceUrl c u st = (Inr (lookup c u (documents st)), st)"
  by (simp add: findByCanonicalUrlOrSourceUrl_def lookup_def bind_def roundTrip_ok
      split: option.splits)

lemma update_ok:
  assumes "faults st = []" and "\<exists>d \<in> set (documents st). e_id d = i"
  shows "update pf now i data st =
     (Inr (find (\<lambda>d. e_id d = i) (updated pf now i data (documents st))),
      st\<lparr>documents := updated pf now i data (documents st)\<rparr>)"
proof -
  have terms:
    "(if p_rawText data \<noteq> None \<or> p_title data \<noteq> None \<or> p_summary data \<noteq> None
        then bind (findById i) (\<lambda>existing.
               return
                 (case existing of
                    None \<Rightarrow> None
                  | Some ex \<Rightarrow>
                      Some (buildSearchTerms pf (orElse (p_title data) (e_title ex))
                        (case p_summary data of Some s \<Rightarrow> s | None \<Rightarrow> e_summary ex)
                        (case p_rawText data of Some t \<Rightarrow> t | None \<Rightarrow> e_rawText ex))))
        else return None) st = (Inr (rebuiltTerms pf i data (documents st)), st)"
    using assms(1) by (simp add: bind_def return_def findById_ok rebuiltTerms_def)
  have f: "faults (st\<lparr>documents := ds\<rparr>) = []" for ds
    using assms(1) by simp
  show ?thesis
    unfolding update_def
    by (subst bind_def, subst terms)
       (simp add: bind_def[of roundTrip] roundTrip_ok assms bind_def[of "findById i"]
          findById_ok[OF f] return_def updated_def)
qed

lemma create_ok:
  assumes "faults st = []"
  shows "create pf now data st =
     (Inr (newDocument pf now (nextId st) data),
      st\<lparr>nextId := Suc (nextId st),
         documents := documents st @ [newDocument pf now (nextId st) data]\<rparr>)"
  using assms by (simp add: create_def bind_def generateId_def roundTrip_ok Let_def)

lemma find_SomeD: "find P xs = Some x \<Longrightarrow> x \<in> set xs \<and> P x"
  by (auto simp: find_Some_iff)

lemma lookup_in_set: "lookup c u docs = Some ex \<Longrightarrow> ex \<in> set docs"
  by (auto simp: lookup_def split: option.splits dest: find_SomeD)

lemma urlAliases_upsert_ok:
  assumes "faults st = []"
  shows "\<exists>a st'. urlAliases_upsert now u i s st = (Inr a, st') \<and> documents st' = documents st \<and>
           runs st' = runs st \<and> faults st' = [] \<and> nextId st \<le> nextId st'"
  using assms
  by (auto simp: urlAliases_upsert_def findByAliasUrl_def bind_def roundTrip_ok generateId_def
      Let_def split: option.splits)

lemma persistDiscovery_ok:
  assumes "faults st = []"
  shows "\<exists>counts' st'.
     persistDiscovery pf now doc counts st = (Inr counts', st') \<and>
     faults st' = [] \<and> runs st' = runs st \<and> nextId st \<le> nextId st' \<and>
     documents st' = persisted pf now doc (nextId st) (documents st) \<and>
     (case lookup (d_canonicalUrl doc) (d_url doc) (documents st) of
        Some ex \<Rightarrow> newCount counts' = newCount counts \<and>
                   updatedCount counts' = updatedCount counts + 1
      | None \<Rightarrow> newCount counts' = newCount counts + 1 \<and>
                updatedCount counts' = updatedCount counts \<and>
                aliasCount counts' = aliasCount counts \<and> nextId st' = Suc (nextId st))"
proof (cases "lookup (d_canonicalUrl doc) (d_url doc) (documents st)")
  case None
  then show ?thesis
    using assms
    by (simp add: persistDiscovery_def bind_def findByCanonicalUrlOrSourceUrl_ok catch_def
        create_ok return_def persisted_def)
next
  case (Some ex)
  then have ex: "\<exists>d \<in> set (documents st). e_id d = e_id ex"
    using lookup_in_set by blast
  let ?st1 = "st\<lparr>documents := updated pf now (e_id ex) (sightingFields pf now doc ex) (documents st)\<rparr>"
  have f1: "faults ?st1 = []" using assms by simp
  from urlAliases_upsert_ok[OF f1, of now "d_url doc" "e_id ex" "d_discoverySource doc"]
  obtain a st2 where
    up: "urlAliases_upsert now (d_url doc) (e_id ex) (d_discoverySource doc) ?st1 = (Inr a, st2)"
    and st2: "documents st2 = documents ?st1" "runs st2 = runs ?st1" "faults st2 = []"
      "nextId ?st1 \<le> nextId st2"
    by blast
  show ?thesis
    using assms Some st2
    by (simp add: persistDiscovery_def bind_def findByCanonicalUrlOrSourceUrl_ok catch_def
        update_ok[OF assms ex] return_def persisted_def Let_def up)
qed

lemma discoveryRuns_create_ok:
  assumes "faults st = []"
  shows "discoveryRuns_create now name st =
     (Inr \<lparr>r_id = nextId st, r_source = name, r_urlsFound = 0, r_urlsNew = 0,
            r_urlsChanged = 0, r_errors = 0, r_startedAt = now, r_completedAt = None\<rparr>,
      st\<lparr>nextId := Suc (nextId st),
         runs := runs st @ [\<lparr>r_id = nextId st, r_source = name, r_urlsFound = 0, r_urlsNew = 0,
            r_urlsChanged = 0, r_errors = 0, r_startedAt = now, r_completedAt = None\<rparr>]\<rparr>)"
  using assms by (simp add: discoveryRuns_create_def bind_def generateId_def roundTrip_ok Let_def)

lemma discoveryRuns_update_ok:
  assumes "faults st = []" "\<exists>r \<in> set (runs st). r_id r = i"
  shows "discoveryRuns_update i a b c d t st =
     (Inr (),
      st\<lparr>runs := map (\<lambda>r. if r_id r = i
                            then r\<lparr>r_urlsFound := a, r_urlsNew := b,
                                   r_urlsChanged := c, r_errors := d,
                                   r_completedAt := Some t\<rparr>
                            else r) (runs st)\<rparr>)"
  using assms by (simp add: discoveryRuns_update_def bind_def roundTrip_ok)

subsection \<open>Deduplication across sources\<close>

lemma deduplicateLoop_keys:
  "fst ` set (deduplicateLoop acc xs) = fst ` set acc \<union> (\<lambda>i. normalizeUrl (url i)) ` set xs"
  by (induction xs arbitrary: acc) (auto simp: Let_def)

lemma deduplicateLoop_distinct:
  "distinct (map fst acc) \<Longrightarrow> distinct (map fst (deduplicateLoop acc xs))"
  by (induction xs arbitrary: acc) (auto simp: Let_def)

lemma deduplicateLoop_entries:
  "(k, d) \<in> set (deduplicateLoop acc xs) \<Longrightarrow>
   (k, d) \<in> set acc \<or>
   (k \<notin> fst ` set acc \<and>
    (\<exists>item. find (\<lambda>i. normalizeUrl (url i) = k) xs = Some item \<and>
       d = \<lparr>d_url = url item, d_canonicalUrl = k, d_title = title item,
            d_fileType = fileType item, d_discoverySource = discoverySource item,
            d_sourceHub = sourceHub item\<rparr>))"
proof (induction xs arbitrary: acc)
  case Nil
  then show ?case by simp
next
  case (Cons item rest)
  let ?c = "normalizeUrl (url item)"
  show ?case
  proof (cases "?c \<in> fst ` set acc")
    case True
    with Cons.prems have "(k, d) \<in> set (deduplicateLoop acc rest)" by (simp add: Let_def)
    from Cons.IH[OF this] True show ?thesis by auto
  next
    case False
    let ?e = "(?c, \<lparr>d_url = url item, d_canonicalUrl = ?c, d_title = title item,
            d_fileType = fileType item, d_discoverySource = discoverySource item,
            d_sourceHub = sourceHub item\<rparr>)"
    from False Cons.prems have "(k, d) \<in> set (deduplicateLoop (acc @ [?e]) rest)"
      by (simp add: Let_def)
    from Cons.IH[OF this] False show ?thesis by (auto simp: image_iff)
  qed
qed

lemma deduplicateLoop_canonical:
  "(\<And>k d. (k, d) \<in> set acc \<Longrightarrow> d_canonicalUrl d = k) \<Longrightarrow>
   (k, d) \<in> set (deduplicateLoop acc xs) \<Longrightarrow> d_canonicalUrl d = k"
proof (induction xs arbitrary: acc)
  case Nil
  then show ?case by simp
next
  case (Cons item rest)
  show ?case
  proof (cases "normalizeUrl (url item) \<in> fst ` set acc")
    case True
    with Cons.prems(2) have "(k, d) \<in> set (deduplicateLoop acc rest)" by (simp add: Let_def)
    with Cons.IH[of acc] Cons.prems(1) show ?thesis by blast
  next
    case False
    let ?e = "(normalizeUrl (url item), \<lparr>d_url = url item, d_canonicalUrl = normalizeUrl (url item),
            d_title = title item, d_fileType = fileType item,
            d_discoverySource = discoverySource item, d_sourceHub = sourceHub item\<rparr>)"
    from False Cons.prems(2) have in_loop: "(k, d) \<in> set (deduplicateLoop (acc @ [?e]) rest)"
      by (simp add: Let_def)
    have "\<And>k d. (k, d) \<in> set (acc @ [?e]) \<Longrightarrow> d_canonicalUrl d = k"
      using Cons.prems(1) by auto
    from Cons.IH[OF this in_loop] show ?thesis .
  qed
qed

text \<open>
  Claim C6. \<^verbatim>\<open>deduplicateUrls\<close> returns one entry per distinct normalised URL of the
  merged sequence, and the entry of a canonical URL carries the raw URL, title, file
  type, discovery source and source hub of the first item of the sequence whose URL
  normalises to it.
\<close>

theorem deduplicateUrls_first_wins:
  "distinct (map d_canonicalUrl (deduplicateUrls allUrls)) \<and>
   set (map d_canonicalUrl (deduplicateUrls allUrls)) = (\<lambda>i. normalizeUrl (url i)) ` set allUrls \<and>
   (\<forall>d \<in> set (deduplicateUrls allUrls).
      \<exists>item. find (\<lambda>i. normalizeUrl (url i) = d_canonicalUrl d) allUrls = Some item \<and>
        d_url d = url item \<and> d_title d = title item \<and> d_fileType d = fileType item \<and>
        d_discoverySource d = discoverySource item \<and> d_sourceHub d = sourceHub item)"
proof -
  have key: "d_canonicalUrl d = k" if "(k, d) \<in> set (deduplicateLoop [] allUrls)" for k d
    using deduplicateLoop_canonical[of "[]" k d allUrls] that by simp
  then have eq: "map d_canonicalUrl (deduplicateUrls allUrls) = map fst (deduplicateLoop [] allUrls)"
    by (auto simp: deduplicateUrls_def)
  have 1: "distinct (map d_canonicalUrl (deduplicateUrls allUrls))"
    unfolding eq by (rule deduplicateLoop_distinct) simp
  have 2: "set (map d_canonicalUrl (deduplicateUrls allUrls)) = (\<lambda>i. normalizeUrl (url i)) ` set allUrls"
    unfolding eq using deduplicateLoop_keys[of "[]" allUrls] by simp
  have 3: "\<exists>item. find (\<lambda>i. normalizeUrl (url i) = d_canonicalUrl d) allUrls = Some item \<and>
        d_url d = url item \<and> d_title d = title item \<and> d_fileType d = fileType item \<and>
        d_discoverySource d = discoverySource item \<and> d_sourceHub d = sourceHub item"
    if "d \<in> set (deduplicateUrls allUrls)" for d
  proof -
    from that obtain k where kd: "(k, d) \<in> set (deduplicateLoop [] allUrls)"
      by (auto simp: deduplicateUrls_def)
    from key[OF kd] have k: "k = d_canonicalUrl d" by simp
    from deduplicateLoop_entries[OF kd] obtain item where
      f: "find (\<lambda>i. normalizeUrl (url i) = k) allUrls = Some item" and
      d: "d = \<lparr>d_url = url item, d_canonicalUrl = k, d_title = title item,
            d_fileType = fileType item, d_discoverySource = discoverySource item,
            d_sourceHub = sourceHub item\<rparr>" by auto
    have "d_url d = url item \<and> d_title d = title item \<and> d_fileType d = fileType item \<and>
        d_discoverySource d = discoverySource item \<and> d_sourceHub d = sourceHub item"
      by (subst d)+ simp
    with f k show ?thesis by blast
  qed
  from 1 2 3 show ?thesis by blast
qed

theorem deduplicateUrls_first_wins_witness:
  "map d_discoverySource
     (deduplicateUrls
        [\<lparr>url = ''https://example.com/a/'', title = ''A'', sourceHub = ''hub'',
          fileType = Pdf, discoverySource = ''hub-scrape''\<rparr>,
         \<lparr>url = ''http://EXAMPLE.com/a?utm_source=x'', title = ''B'', sourceHub = ''map'',
          fileType = Html, discoverySource = ''sitemap-parse''\<rparr>]) = [''hub-scrape''] \<and>
   (\<exists>d \<in> set (deduplicateUrls
        [\<lparr>url = ''https://example.com/a/'', title = ''A'', sourceHub = ''hub'',
          fileType = Pdf, discoverySource = ''hub-scrape''\<rparr>,
         \<lparr>url = ''http://EXAMPLE.com/a?utm_source=x'', title = ''B'', sourceHub = ''map'',
          fileType = Html, discoverySource = ''sitemap-parse''\<rparr>]).
      \<exists>item. find (\<lambda>i. normalizeUrl (url i) = d_canonicalUrl d)
        [\<lparr>url = ''https://example.com/a/'', title = ''A'', sourceHub = ''hub'',
          fileType = Pdf, discoverySource = ''hub-scrape''\<rparr>,
         \<lparr>url = ''http://EXAMPLE.com/a?utm_source=x'', title = ''B'', sourceHub = ''map'',
          fileType = Html, discoverySource = ''sitemap-parse''\<rparr>] = Some item \<and>
        d_url d = url item \<and> d_title d = title item \<and> d_fileType d = fileType item \<and>
        d_discoverySource d = discoverySource item \<and> d_sourceHub d = sourceHub item)"
  (is "map d_discoverySource (deduplicateUrls ?xs) = _ \<and> _")
proof -
  have v: "map d_discoverySource (deduplicateUrls ?xs) = [''hub-scrape'']"
    by code_simp
  then have "deduplicateUrls ?xs \<noteq> []" by auto
  then obtain d where "d \<in> set (deduplicateUrls ?xs)" by (cases "deduplicateUrls ?xs") auto
  with deduplicateUrls_first_wins[of ?xs] v show ?thesis by blast
qed

subsection \<open>Repeated discovery\<close>

lemma rebuiltTerms_sighting [simp]:
  "rebuiltTerms pf i (sightingFields pf now doc ex) docs = None"
  by (simp add: rebuiltTerms_def sightingFields_def noFields_def)

lemma applyFields_sighting:
  "applyFields (sightingFields pf now doc ex) d =
     d\<lparr>e_canonicalUrl :=
          (if truthy (e_canonicalUrl ex) then e_canonicalUrl ex else Some (d_canonicalUrl doc)),
        e_discoveryLineage := Some (seenAgain (isoDate pf now) doc (lineageOf ex))\<rparr>"
  by (simp add: applyFields_def sightingFields_def noFields_def lineageOf_def Let_def)

lemma writeFields_sighting:
  "writeFields now (sightingFields pf now doc ex) None ex = sighted pf now doc ex"
  by (simp add: writeFields_def applyFields_sighting sighted_def)

lemma distinct_id_eq:
  "distinct (map e_id docs) \<Longrightarrow> ex \<in> set docs \<Longrightarrow> d \<in> set docs \<Longrightarrow> e_id d = e_id ex \<longleftrightarrow> d = ex"
  by (auto simp: distinct_map inj_on_def)

lemma updated_sighting:
  assumes "distinct (map e_id docs)" "ex \<in> set docs"
  shows "updated pf now (e_id ex) (sightingFields pf now doc ex) docs =
         map (\<lambda>d. if d = ex then sighted pf now doc ex else d) docs"
proof -
  have "(if e_id d = e_id ex
         then writeFields now (sightingFields pf now doc ex)
                (rebuiltTerms pf (e_id ex) (sightingFields pf now doc ex) docs) d
         else d) = (if d = ex then sighted pf now doc ex else d)" if "d \<in> set docs" for d
    using distinct_id_eq[OF assms that] by (simp add: writeFields_sighting)
  then show ?thesis unfolding updated_def by (intro map_cong refl)
qed

lemma persisted_found:
  assumes "distinct (map e_id docs)" "lookup (d_canonicalUrl doc) (d_url doc) docs = Some ex"
  shows "persisted pf now doc i docs = map (\<lambda>d. if d = ex then sighted pf now doc ex else d) docs"
  using assms by (simp add: persisted_def updated_sighting lookup_in_set)

lemma persisted_new:
  assumes "lookup (d_canonicalUrl doc) (d_url doc) docs = None"
  shows "persisted pf now doc i docs = docs @ [newDocument pf now i (discoveredFields pf now doc)]"
  using assms by (simp add: persisted_def)

lemma find_map_invariant:
  "(\<And>d. d \<in> set docs \<Longrightarrow> P (g d) = P d) \<Longrightarrow> find P (map g docs) = map_option g (find P docs)"
  by (induction docs) auto

lemma find_unique:
  assumes "x \<in> set xs" "P x" "\<And>y. y \<in> set xs \<Longrightarrow> P y \<Longrightarrow> y = x"
  shows "find P xs = Some x"
proof -
  from assms(1,2) have "find P xs \<noteq> None" by (auto simp: find_None_iff)
  then obtain y where y: "find P xs = Some y" by auto
  then have "y \<in> set xs" "P y" by (auto dest: find_SomeD)
  with assms(3) y show ?thesis by auto
qed

lemma find_append_case:
  "find P (xs @ ys) = (case find P xs of Some x \<Rightarrow> Some x | None \<Rightarrow> find P ys)"
  by (induction xs) auto

lemma refreshFirst_length [simp]: "length (refreshFirst same today l) = length l"
  by (induction l) auto

lemma refreshFirst_nth:
  "j < length l \<Longrightarrow>
   l_source (refreshFirst same today l ! j) = l_source (l ! j) \<and>
   l_sourceId (refreshFirst same today l ! j) = l_sourceId (l ! j) \<and>
   l_firstSeen (refreshFirst same today l ! j) = l_firstSeen (l ! j)"
proof (induction l arbitrary: j)
  case Nil
  then show ?case by simp
next
  case (Cons e es)
  then show ?case by (cases j) auto
qed

lemma refreshFirst_origin:
  "(\<exists>e \<in> set (refreshFirst same today l). sameOrigin doc0 e) \<longleftrightarrow> (\<exists>e \<in> set l. sameOrigin doc0 e)"
  by (induction l) (auto simp: sameOrigin_def)

lemma seenAgain_origin:
  "\<exists>e \<in> set l. sameOrigin doc0 e \<Longrightarrow> \<exists>e \<in> set (seenAgain today doc l). sameOrigin doc0 e"
  by (auto simp: seenAgain_def refreshFirst_origin split: option.splits)

lemma seenAgain_own: "\<exists>e \<in> set (seenAgain today doc l). sameOrigin doc e"
proof (cases "find (sameOrigin doc) l")
  case None
  then show ?thesis by (simp add: seenAgain_def sameOrigin_def)
next
  case (Some e)
  then have "\<exists>e \<in> set l. sameOrigin doc e" by (auto dest: find_SomeD)
  then show ?thesis using Some by (simp add: seenAgain_def refreshFirst_origin)
qed

lemma sighted_canonical_truthy:
  "d_canonicalUrl doc \<noteq> [] \<Longrightarrow> truthy (e_canonicalUrl (sighted pf now doc ex))"
  by (simp add: sighted_def truthy_def)

lemma sighted_sourceUrl [simp]: "e_sourceUrl (sighted pf now doc ex) = e_sourceUrl ex"
  by (simp add: sighted_def)

lemma sighted_id [simp]: "e_id (sighted pf now doc ex) = e_id ex"
  by (simp add: sighted_def)

lemma sighted_lineage [simp]:
  "lineageOf (sighted pf now doc ex) = seenAgain (isoDate pf now) doc (lineageOf ex)"
  by (simp add: sighted_def lineageOf_def)

lemma sighted_canonical_other:
  assumes "c0 \<noteq> []" "c0 \<noteq> d_canonicalUrl doc"
  shows "e_canonicalUrl (sighted pf now doc ex) = Some c0 \<longleftrightarrow> e_canonicalUrl ex = Some c0"
  using assms by (auto simp: sighted_def truthy_def split: option.splits)

lemma lookup_map_invariant:
  assumes "\<And>d. d \<in> set docs \<Longrightarrow> e_canonicalUrl (g d) = Some c \<longleftrightarrow> e_canonicalUrl d = Some c"
      and "\<And>d. d \<in> set docs \<Longrightarrow> e_sourceUrl (g d) = e_sourceUrl d"
  shows "lookup c u (map g docs) = map_option g (lookup c u docs)"
proof -
  have 1: "find (\<lambda>d. e_canonicalUrl d = Some c) (map g docs) =
           map_option g (find (\<lambda>d. e_canonicalUrl d = Some c) docs)"
    by (rule find_map_invariant) (use assms(1) in auto)
  have 2: "find (\<lambda>d. e_sourceUrl d = u) (map g docs) =
           map_option g (find (\<lambda>d. e_sourceUrl d = u) docs)"
    by (rule find_map_invariant) (use assms(2) in auto)
  show ?thesis unfolding lookup_def 1 2 by (simp split: option.splits)
qed

lemma settled_persisted_other:
  assumes dist: "distinct (map e_id docs)"
      and s0: "settled doc0 docs"
      and c0: "d_canonicalUrl doc0 \<noteq> []" and c: "d_canonicalUrl doc \<noteq> []"
      and ne: "d_canonicalUrl doc0 \<noteq> d_canonicalUrl doc"
  shows "settled doc0 (persisted pf now doc i docs)"
proof (cases "lookup (d_canonicalUrl doc) (d_url doc) docs")
  case None
  from s0 obtain ex0 where l0: "lookup (d_canonicalUrl doc0) (d_url doc0) docs = Some ex0"
    by (auto simp: settled_def split: option.splits)
  let ?new = "newDocument pf now i (discoveredFields pf now doc)"
  have cn: "e_canonicalUrl ?new = Some (d_canonicalUrl doc)"
    using c by (simp add: newDocument_def discoveredFields_def noFields_def orNull_def Let_def)
  have "lookup (d_canonicalUrl doc0) (d_url doc0) (docs @ [?new]) = Some ex0"
    using l0 cn ne by (auto simp: lookup_def find_append_case split: option.splits)
  with s0 l0 show ?thesis by (simp add: persisted_new[OF None] settled_def)
next
  case (Some ex)
  let ?g = "\<lambda>d. if d = ex then sighted pf now doc ex else d"
  from s0 obtain ex0 where l0: "lookup (d_canonicalUrl doc0) (d_url doc0) docs = Some ex0"
    and t0: "truthy (e_canonicalUrl ex0)" and o0: "\<exists>e \<in> set (lineageOf ex0). sameOrigin doc0 e"
    by (auto simp: settled_def split: option.splits)
  have "lookup (d_canonicalUrl doc0) (d_url doc0) (map ?g docs) =
        map_option ?g (lookup (d_canonicalUrl doc0) (d_url doc0) docs)"
    by (rule lookup_map_invariant) (use sighted_canonical_other[OF c0 ne] in auto)
  then have l1: "lookup (d_canonicalUrl doc0) (d_url doc0) (map ?g docs) = Some (?g ex0)"
    using l0 by simp
  have "truthy (e_canonicalUrl (?g ex0))"
    using t0 sighted_canonical_truthy[OF c] by simp
  moreover have "\<exists>e \<in> set (lineageOf (?g ex0)). sameOrigin doc0 e"
  proof (cases "ex0 = ex")
    case True
    with seenAgain_origin[OF o0, of "isoDate pf now" doc] show ?thesis by simp
  next
    case False
    with o0 show ?thesis by simp
  qed
  ultimately show ?thesis
    unfolding persisted_found[OF dist Some] settled_def l1 by simp
qed

lemma discovered_new:
  assumes "d_canonicalUrl doc \<noteq> []"
  shows "e_canonicalUrl (newDocument pf now i (discoveredFields pf now doc)) = Some (d_canonicalUrl doc)"
    and "lineageOf (newDocument pf now i (discoveredFields pf now doc)) =
           [\<lparr>l_source = d_discoverySource doc, l_sourceId = d_sourceHub doc,
             l_firstSeen = isoDate pf now, l_lastSeen = isoDate pf now\<rparr>]"
    and "e_sourceUrl (newDocument pf now i (discoveredFields pf now doc)) = d_url doc"
    and "e_id (newDocument pf now i (discoveredFields pf now doc)) = i"
  using assms
  by (simp_all add: newDocument_def discoveredFields_def noFields_def orNull_def Let_def lineageOf_def)

lemma settled_persisted_self:
  assumes dist: "distinct (map e_id docs)" and c: "d_canonicalUrl doc \<noteq> []"
  shows "settled doc (persisted pf now doc i docs)"
proof (cases "lookup (d_canonicalUrl doc) (d_url doc) docs")
  case None
  let ?new = "newDocument pf now i (discoveredFields pf now doc)"
  from None have "find (\<lambda>d. e_canonicalUrl d = Some (d_canonicalUrl doc)) docs = None"
    by (simp add: lookup_def split: option.splits)
  then have "lookup (d_canonicalUrl doc) (d_url doc) (docs @ [?new]) = Some ?new"
    using discovered_new(1)[OF c] by (simp add: lookup_def find_append_case)
  then show ?thesis
    using discovered_new[OF c]
    by (simp add: persisted_new[OF None] settled_def truthy_def c sameOrigin_def)
next
  case (Some ex)
  let ?g = "\<lambda>d. if d = ex then sighted pf now doc ex else d"
  let ?C = "\<lambda>d. e_canonicalUrl d = Some (d_canonicalUrl doc)"
  have ex_in: "ex \<in> set docs" using Some lookup_in_set by blast
  have look: "lookup (d_canonicalUrl doc) (d_url doc) (map ?g docs) = Some (?g ex)"
  proof (cases "find ?C docs")
    case found: (Some ex')
    with Some have "ex' = ex" by (simp add: lookup_def)
    with found have cx: "e_canonicalUrl ex = Some (d_canonicalUrl doc)"
      by (auto dest: find_SomeD)
    then have "e_canonicalUrl (sighted pf now doc ex) = Some (d_canonicalUrl doc)"
      using c by (simp add: sighted_def truthy_def)
    with cx have "lookup (d_canonicalUrl doc) (d_url doc) (map ?g docs) =
        map_option ?g (lookup (d_canonicalUrl doc) (d_url doc) docs)"
      by (intro lookup_map_invariant) auto
    with Some show ?thesis by simp
  next
    case nf: None
    with Some have src: "find (\<lambda>d. e_sourceUrl d = d_url doc) docs = Some ex"
      by (simp add: lookup_def)
    have none: "\<not> ?C d" if "d \<in> set docs" for d
      using nf that by (auto simp: find_None_iff)
    have src': "find (\<lambda>d. e_sourceUrl d = d_url doc) (map ?g docs) = Some (?g ex)"
      using find_map_invariant[of docs "\<lambda>d. e_sourceUrl d = d_url doc" ?g] src by simp
    show ?thesis
    proof (cases "truthy (e_canonicalUrl ex)")
      case True
      then have "e_canonicalUrl (sighted pf now doc ex) = e_canonicalUrl ex"
        by (simp add: sighted_def)
      then have "find ?C (map ?g docs) = map_option ?g (find ?C docs)"
        by (intro find_map_invariant) auto
      with nf src' show ?thesis by (simp add: lookup_def)
    next
      case False
      then have cs: "?C (sighted pf now doc ex)" by (simp add: sighted_def)
      have "find ?C (map ?g docs) = Some (sighted pf now doc ex)"
      proof (rule find_unique)
        show "sighted pf now doc ex \<in> set (map ?g docs)" using ex_in by force
        show "?C (sighted pf now doc ex)" by (rule cs)
        show "y = sighted pf now doc ex" if "y \<in> set (map ?g docs)" "?C y" for y
          using that none by (auto split: if_splits)
      qed
      then show ?thesis by (simp add: lookup_def)
    qed
  qed
  have "truthy (e_canonicalUrl (sighted pf now doc ex))"
    by (rule sighted_canonical_truthy[OF c])
  moreover have "\<exists>e \<in> set (lineageOf (sighted pf now doc ex)). sameOrigin doc e"
    using seenAgain_own by simp
  ultimately show ?thesis
    unfolding persisted_found[OF dist Some] settled_def look by simp
qed

lemma sameButLastSeen_refl [simp]: "sameButLastSeen e e"
  by (simp add: sameButLastSeen_def)

lemma sameButLastSeen_trans:
  "sameButLastSeen a b \<Longrightarrow> sameButLastSeen b c \<Longrightarrow> sameButLastSeen a c"
  unfolding sameButLastSeen_def
  by (metis LineageEntry.surjective LineageEntry.update_convs(4))

lemma onlyRefreshed_refl [simp]: "onlyRefreshed d d"
  by (simp add: onlyRefreshed_def list_all2_refl)

lemma lineage_None_iff: "e_discoveryLineage d = None \<Longrightarrow> lineageOf d = []"
  by (simp add: lineageOf_def)

lemma onlyRefreshed_trans:
  assumes "onlyRefreshed a b" "onlyRefreshed b c"
  shows "onlyRefreshed a c"
proof -
  have 1: "list_all2 sameButLastSeen (lineageOf a) (lineageOf c)"
    using assms sameButLastSeen_trans
    by (auto simp: onlyRefreshed_def intro: list_all2_trans[where ?P1.0=sameButLastSeen and ?P2.0=sameButLastSeen])
  have 2: "e_discoveryLineage a = None \<longleftrightarrow> e_discoveryLineage c = None"
    using assms by (simp add: onlyRefreshed_def)
  have b: "b = a\<lparr>e_discoveryLineage := e_discoveryLineage b, e_updatedAt := e_updatedAt b\<rparr>"
    using assms(1) by (simp add: onlyRefreshed_def)
  have c: "c = b\<lparr>e_discoveryLineage := e_discoveryLineage c, e_updatedAt := e_updatedAt c\<rparr>"
    using assms(2) by (simp add: onlyRefreshed_def)
  have 3: "c = a\<lparr>e_discoveryLineage := e_discoveryLineage c, e_updatedAt := e_updatedAt c\<rparr>"
    by (subst c, subst b) simp
  from 1 2 3 show ?thesis unfolding onlyRefreshed_def by blast
qed

lemma refreshFirst_sameButLastSeen: "list_all2 sameButLastSeen l (refreshFirst same today l)"
  by (induction l) (auto simp: sameButLastSeen_def list_all2_refl)

lemma sighted_settled:
  assumes "truthy (e_canonicalUrl ex)" "\<exists>e \<in> set (lineageOf ex). sameOrigin doc e"
  shows "onlyRefreshed ex (sighted pf now doc ex)"
proof -
  from assms(2) have "find (sameOrigin doc) (lineageOf ex) \<noteq> None"
    by (auto simp: find_None_iff)
  then have sa: "seenAgain (isoDate pf now) doc (lineageOf ex) =
                 refreshFirst (sameOrigin doc) (isoDate pf now) (lineageOf ex)"
    by (auto simp: seenAgain_def)
  from assms(2) have some: "e_discoveryLineage ex \<noteq> None"
    by (cases "e_discoveryLineage ex") (auto simp: lineageOf_def)
  have eq: "sighted pf now doc ex =
            ex\<lparr>e_discoveryLineage := e_discoveryLineage (sighted pf now doc ex),
               e_updatedAt := e_updatedAt (sighted pf now doc ex)\<rparr>"
    using assms(1) by (simp add: sighted_def)
  have "list_all2 sameButLastSeen (lineageOf ex) (lineageOf (sighted pf now doc ex))"
    by (simp add: sa refreshFirst_sameButLastSeen)
  moreover have "e_discoveryLineage (sighted pf now doc ex) \<noteq> None"
    by (simp add: sighted_def)
  ultimately show ?thesis
    unfolding onlyRefreshed_def using some eq by blast
qed

lemma persisted_settled:
  assumes dist: "distinct (map e_id docs)" and s: "settled doc docs"
  shows "list_all2 onlyRefreshed docs (persisted pf now doc i docs)"
proof -
  from s obtain ex where l: "lookup (d_canonicalUrl doc) (d_url doc) docs = Some ex"
    and t: "truthy (e_canonicalUrl ex)" and o: "\<exists>e \<in> set (lineageOf ex). sameOrigin doc e"
    by (auto simp: settled_def split: option.splits)
  have "list_all2 onlyRefreshed docs (map (\<lambda>d. if d = ex then sighted pf now doc ex else d) docs)"
    unfolding list_all2_map2
    by (rule list_all2_refl) (use sighted_settled[OF t o] in auto)
  then show ?thesis by (simp add: persisted_found[OF dist l])
qed

lemma newDocument_id [simp]: "e_id (newDocument pf now i data) = i"
  by (simp add: newDocument_def)

lemma persisted_ids:
  assumes dist: "distinct (map e_id docs)"
  shows "map e_id (persisted pf now doc i docs) =
         (case lookup (d_canonicalUrl doc) (d_url doc) docs of
            Some ex \<Rightarrow> map e_id docs | None \<Rightarrow> map e_id docs @ [i])"
proof (cases "lookup (d_canonicalUrl doc) (d_url doc) docs")
  case None
  then show ?thesis by (simp add: persisted_new)
next
  case (Some ex)
  have "map e_id (map (\<lambda>d. if d = ex then sighted pf now doc ex else d) docs) = map e_id docs"
    by (induction docs) auto
  then show ?thesis using Some by (simp add: persisted_found[OF dist Some])
qed

lemma persistDiscovery_step:
  assumes nf: "faults st = []" and wf: "wf_catalog st"
  obtains counts' st' where
    "persistDiscovery pf now doc counts st = (Inr counts', st')"
    "faults st' = []" "wf_catalog st'" "runs st' = runs st" "nextId st \<le> nextId st'"
    "documents st' = persisted pf now doc (nextId st) (documents st)"
    "lookup (d_canonicalUrl doc) (d_url doc) (documents st) \<noteq> None \<Longrightarrow>
       newCount counts' = newCount counts"
proof -
  from persistDiscovery_ok[OF nf, of pf now doc counts] obtain counts' st' where
    r: "persistDiscovery pf now doc counts st = (Inr counts', st')" and
    f: "faults st' = []" and ru: "runs st' = runs st" and n: "nextId st \<le> nextId st'" and
    d: "documents st' = persisted pf now doc (nextId st) (documents st)" and
    c: "(case lookup (d_canonicalUrl doc) (d_url doc) (documents st) of
        Some ex \<Rightarrow> newCount counts' = newCount counts \<and>
                   updatedCount counts' = updatedCount counts + 1
      | None \<Rightarrow> newCount counts' = newCount counts + 1 \<and>
                updatedCount counts' = updatedCount counts \<and>
                aliasCount counts' = aliasCount counts \<and> nextId st' = Suc (nextId st))"
    by blast
  from wf have dist: "distinct (map e_id (documents st))"
    and lt: "\<forall>d \<in> set (documents st). e_id d < nextId st"
    by (auto simp: wf_catalog_def list_all_iff)
  have ids: "map e_id (documents st') =
         (case lookup (d_canonicalUrl doc) (d_url doc) (documents st) of
            Some ex \<Rightarrow> map e_id (documents st) | None \<Rightarrow> map e_id (documents st) @ [nextId st])"
    unfolding d by (rule persisted_ids[OF dist])
  have wf': "wf_catalog st'"
  proof (cases "lookup (d_canonicalUrl doc) (d_url doc) (documents st)")
    case None
    with ids have i: "map e_id (documents st') = map e_id (documents st) @ [nextId st]" by simp
    from None c have n': "nextId st' = Suc (nextId st)" by simp
    have "distinct (map e_id (documents st'))"
      unfolding i using dist lt by auto
    moreover have "\<forall>x \<in> set (map e_id (documents st')). x < nextId st'"
      unfolding i n' using lt by auto
    ultimately show ?thesis by (auto simp: wf_catalog_def list_all_iff)
  next
    case (Some ex)
    with ids have i: "map e_id (documents st') = map e_id (documents st)" by simp
    have "distinct (map e_id (documents st'))" unfolding i by (rule dist)
    moreover have "\<forall>x \<in> set (map e_id (documents st')). x < nextId st'"
      unfolding i using lt n by auto
    ultimately show ?thesis by (auto simp: wf_catalog_def list_all_iff)
  qed
  have "newCount counts' = newCount counts"
    if "lookup (d_canonicalUrl doc) (d_url doc) (documents st) \<noteq> None"
    using that c by (auto split: option.splits)
  with r f wf' ru n d that show thesis by blast
qed

lemma persistLoop_first:
  assumes "faults st = []" "wf_catalog st" "distinct (map d_canonicalUrl docs)"
    "\<forall>d \<in> set docs. d_canonicalUrl d \<noteq> []"
  shows "\<exists>counts' st'. persistLoop pf now docs counts st = (Inr counts', st') \<and>
           faults st' = [] \<and> wf_catalog st' \<and> runs st' = runs st \<and> nextId st \<le> nextId st' \<and>
           (\<forall>d \<in> set docs. settled d (documents st')) \<and>
           (\<forall>d0. settled d0 (documents st) \<longrightarrow> d_canonicalUrl d0 \<noteq> [] \<longrightarrow>
                 d_canonicalUrl d0 \<notin> d_canonicalUrl ` set docs \<longrightarrow> settled d0 (documents st'))"
  using assms
proof (induction docs arbitrary: counts st)
  case Nil
  then show ?case by (simp add: return_def)
next
  case (Cons doc docs)
  from Cons.prems have c: "d_canonicalUrl doc \<noteq> []" by simp
  from Cons.prems(2) have dist: "distinct (map e_id (documents st))"
    by (simp add: wf_catalog_def)
  obtain counts1 st1 where
    r1: "persistDiscovery pf now doc counts st = (Inr counts1, st1)" and
    f1: "faults st1 = []" and wf1: "wf_catalog st1" and ru1: "runs st1 = runs st" and
    n1: "nextId st \<le> nextId st1" and
    d1: "documents st1 = persisted pf now doc (nextId st) (documents st)"
    using persistDiscovery_step[OF Cons.prems(1,2), of pf now doc counts] by metis
  from Cons.prems have dd: "distinct (map d_canonicalUrl docs)"
    and cc: "\<forall>d \<in> set docs. d_canonicalUrl d \<noteq> []"
    and notin: "d_canonicalUrl doc \<notin> d_canonicalUrl ` set docs" by auto
  from Cons.IH[OF f1 wf1 dd cc, of counts1] obtain counts' st' where
    r2: "persistLoop pf now docs counts1 st1 = (Inr counts', st')" and
    f2: "faults st' = []" and wf2: "wf_catalog st'" and ru2: "runs st' = runs st1" and
    n2: "nextId st1 \<le> nextId st'" and
    s2: "\<forall>d \<in> set docs. settled d (documents st')" and
    k2: "\<forall>d0. settled d0 (documents st1) \<longrightarrow> d_canonicalUrl d0 \<noteq> [] \<longrightarrow>
                 d_canonicalUrl d0 \<notin> d_canonicalUrl ` set docs \<longrightarrow> settled d0 (documents st')"
    by blast
  have self: "settled doc (documents st1)"
    unfolding d1 by (rule settled_persisted_self[OF dist c])
  with k2 c notin have s_doc: "settled doc (documents st')" by blast
  have keep: "settled d0 (documents st')"
    if "settled d0 (documents st)" "d_canonicalUrl d0 \<noteq> []"
       "d_canonicalUrl d0 \<notin> d_canonicalUrl ` set (doc # docs)" for d0
  proof -
    from that(3) have ne: "d_canonicalUrl d0 \<noteq> d_canonicalUrl doc"
      and ni: "d_canonicalUrl d0 \<notin> d_canonicalUrl ` set docs" by auto
    have "settled d0 (documents st1)"
      unfolding d1 by (rule settled_persisted_other[OF dist that(1) that(2) c ne])
    with k2 that(2) ni show ?thesis by blast
  qed
  have "persistLoop pf now (doc # docs) counts st = (Inr counts', st')"
    using r1 r2 by (simp add: bind_def)
  with f2 wf2 ru1 ru2 n1 n2 s_doc s2 keep show ?case
    by (intro exI[of _ counts'], intro exI[of _ st']) auto
qed

lemma persistLoop_again:
  assumes "faults st = []" "wf_catalog st" "distinct (map d_canonicalUrl docs)"
    "\<forall>d \<in> set docs. d_canonicalUrl d \<noteq> []" "\<forall>d \<in> set docs. settled d (documents st)"
  shows "\<exists>counts' st'. persistLoop pf now docs counts st = (Inr counts', st') \<and>
           faults st' = [] \<and> wf_catalog st' \<and> runs st' = runs st \<and> nextId st \<le> nextId st' \<and>
           newCount counts' = newCount counts \<and>
           list_all2 onlyRefreshed (documents st) (documents st')"
  using assms
proof (induction docs arbitrary: counts st)
  case Nil
  then show ?case by (simp add: return_def list_all2_refl)
next
  case (Cons doc docs)
  from Cons.prems have c: "d_canonicalUrl doc \<noteq> []" and s: "settled doc (documents st)" by auto
  from Cons.prems(2) have dist: "distinct (map e_id (documents st))"
    by (simp add: wf_catalog_def)
  from s have found: "lookup (d_canonicalUrl doc) (d_url doc) (documents st) \<noteq> None"
    by (auto simp: settled_def split: option.splits)
  obtain counts1 st1 where
    r1: "persistDiscovery pf now doc counts st = (Inr counts1, st1)" and
    f1: "faults st1 = []" and wf1: "wf_catalog st1" and ru1: "runs st1 = runs st" and
    n1: "nextId st \<le> nextId st1" and
    d1: "documents st1 = persisted pf now doc (nextId st) (documents st)" and
    c1: "newCount counts1 = newCount counts"
    using persistDiscovery_step[OF Cons.prems(1,2), of pf now doc counts] found by metis
  from Cons.prems have dd: "distinct (map d_canonicalUrl docs)"
    and cc: "\<forall>d \<in> set docs. d_canonicalUrl d \<noteq> []"
    and notin: "d_canonicalUrl doc \<notin> d_canonicalUrl ` set docs" by auto
  have still: "\<forall>d \<in> set docs. settled d (documents st1)"
  proof
    fix d assume d: "d \<in> set docs"
    with Cons.prems have sd: "settled d (documents st)" and cd: "d_canonicalUrl d \<noteq> []" by auto
    from d notin have ne: "d_canonicalUrl d \<noteq> d_canonicalUrl doc"
      by (metis imageI)
    show "settled d (documents st1)"
      unfolding d1 by (rule settled_persisted_other[OF dist sd cd c ne])
  qed
  from Cons.IH[OF f1 wf1 dd cc still, of counts1] obtain counts' st' where
    r2: "persistLoop pf now docs counts1 st1 = (Inr counts', st')" and
    f2: "faults st' = []" and wf2: "wf_catalog st'" and ru2: "runs st' = runs st1" and
    n2: "nextId st1 \<le> nextId st'" and
    c2: "newCount counts' = newCount counts1" and
    o2: "list_all2 onlyRefreshed (documents st1) (documents st')"
    by blast
  have o1: "list_all2 onlyRefreshed (documents st) (documents st1)"
    unfolding d1 by (rule persisted_settled[OF dist s])
  have o: "list_all2 onlyRefreshed (documents st) (documents st')"
    using list_all2_trans[OF _ o1 o2] onlyRefreshed_trans by blast
  have "persistLoop pf now (doc # docs) counts st = (Inr counts', st')"
    using r1 r2 by (simp add: bind_def)
  with f2 wf2 ru1 ru2 n1 n2 c1 c2 o show ?case
    by (intro exI[of _ counts'], intro exI[of _ st']) auto
qed

lemma URL_toString_length: "2 \<le> length (URL_toString u)"
  by (simp add: URL_toString_def)

lemma normalizeUrl_nonempty: "u \<noteq> [] \<Longrightarrow> normalizeUrl u \<noteq> []"
proof -
  assume u: "u \<noteq> []"
  have "x \<noteq> [] \<and> butlast x \<noteq> []" if "2 \<le> length x" for x :: string
    using that by (cases x rule: rev_cases) auto
  then show ?thesis
    using u URL_toString_length
    by (auto simp: normalizeUrl_def Let_def split: option.splits)
qed

lemma deduplicateUrls_distinct: "distinct (map d_canonicalUrl (deduplicateUrls xs))"
proof -
  have "d_canonicalUrl d = k" if "(k, d) \<in> set (deduplicateLoop [] xs)" for k d
    using deduplicateLoop_canonical[of "[]" k d xs] that by simp
  then have "map d_canonicalUrl (deduplicateUrls xs) = map fst (deduplicateLoop [] xs)"
    by (auto simp: deduplicateUrls_def)
  then show ?thesis using deduplicateLoop_distinct[of "[]" xs] by simp
qed

lemma deduplicateUrls_canonical:
  assumes "d \<in> set (deduplicateUrls xs)"
  shows "\<exists>item \<in> set xs. d_canonicalUrl d = normalizeUrl (url item)"
proof -
  from assms obtain k where kd: "(k, d) \<in> set (deduplicateLoop [] xs)"
    by (auto simp: deduplicateUrls_def)
  then have "d_canonicalUrl d = k"
    using deduplicateLoop_canonical[of "[]" k d xs] by simp
  moreover from kd have "k \<in> fst ` set (deduplicateLoop [] xs)" by force
  ultimately show ?thesis using deduplicateLoop_keys[of "[]" xs] by auto
qed

lemma wf_catalog_runs:
  "wf_catalog st \<Longrightarrow> wf_catalog (st\<lparr>nextId := Suc (nextId st), runs := rs\<rparr>)"
  by (auto simp: wf_catalog_def list_all_iff less_Suc_eq)

lemma wf_catalog_runs': "wf_catalog st \<Longrightarrow> wf_catalog (st\<lparr>runs := rs\<rparr>)"
  by (auto simp: wf_catalog_def)

lemma runDiscovery_ok:
  assumes nf: "faults st = []" and wf: "wf_catalog st"
    and ne: "\<forall>item \<in> set (fst (discoverAll (case options of Some s \<Rightarrow> s | None \<Rightarrow> [All]) ds)).
               url item \<noteq> []"
  defines "dd \<equiv> deduplicateUrls (fst (discoverAll (case options of Some s \<Rightarrow> s | None \<Rightarrow> [All]) ds))"
  shows "\<exists>res st' counts st1.
     runDiscovery pf now options ds st = (Inr res, st') \<and>
     faults st' = [] \<and> wf_catalog st' \<and>
     persistLoop pf now dd \<lparr>newCount = 0, updatedCount = 0, aliasCount = 0\<rparr>
       (st\<lparr>nextId := Suc (nextId st),
           runs := runs st @ [\<lparr>r_id = nextId st,
             r_source = str_join '','' (map sourceName (case options of Some s \<Rightarrow> s | None \<Rightarrow> [All])),
             r_urlsFound = 0, r_urlsNew = 0,
             r_urlsChanged = 0, r_errors = 0, r_startedAt = now, r_completedAt = None\<rparr>]\<rparr>)
       = (Inr counts, st1) \<and>
     documents st' = documents st1 \<and>
     newDocuments res = newCount counts \<and>
     runId res = nextId st \<and>
     r_id (last (runs st')) = nextId st \<and> r_urlsNew (last (runs st')) = newCount counts \<and>
     (\<forall>d \<in> set dd. settled d (documents st'))"
proof -
  let ?sources = "case options of Some s \<Rightarrow> s | None \<Rightarrow> [All]"
  let ?run = "\<lparr>r_id = nextId st, r_source = str_join '','' (map sourceName ?sources),
             r_urlsFound = 0, r_urlsNew = 0,
             r_urlsChanged = 0, r_errors = 0, r_startedAt = now, r_completedAt = None\<rparr>"
  let ?st0 = "st\<lparr>nextId := Suc (nextId st), runs := runs st @ [?run]\<rparr>"
  obtain allDiscovered bySource' totalErrors where
    da: "discoverAll ?sources ds = (allDiscovered, bySource', totalErrors)"
    by (cases "discoverAll ?sources ds") auto
  have dd: "dd = deduplicateUrls allDiscovered" by (simp add: dd_def da)
  have f0: "faults ?st0 = []" using nf by simp
  have wf0: "wf_catalog ?st0" by (rule wf_catalog_runs[OF wf])
  have dist: "distinct (map d_canonicalUrl dd)" unfolding dd by (rule deduplicateUrls_distinct)
  have cne: "\<forall>d \<in> set dd. d_canonicalUrl d \<noteq> []"
  proof
    fix d assume "d \<in> set dd"
    then obtain item where "item \<in> set allDiscovered" "d_canonicalUrl d = normalizeUrl (url item)"
      unfolding dd using deduplicateUrls_canonical by blast
    with ne da show "d_canonicalUrl d \<noteq> []" by (auto simp: normalizeUrl_nonempty)
  qed
  from persistLoop_first[OF f0 wf0 dist cne, of pf now "\<lparr>newCount = 0, updatedCount = 0, aliasCount = 0\<rparr>"]
  obtain counts st1 where
    p: "persistLoop pf now dd \<lparr>newCount = 0, updatedCount = 0, aliasCount = 0\<rparr> ?st0 = (Inr counts, st1)"
    and f1: "faults st1 = []" and wf1: "wf_catalog st1" and ru1: "runs st1 = runs ?st0"
    and s1: "\<forall>d \<in> set dd. settled d (documents st1)"
    by blast
  have ex: "\<exists>r \<in> set (runs st1). r_id r = nextId st" unfolding ru1 by simp
  let ?upd = "\<lambda>r. if r_id r = nextId st
                            then r\<lparr>r_urlsFound := length dd, r_urlsNew := newCount counts,
                                   r_urlsChanged := updatedCount counts, r_errors := totalErrors,
                                   r_completedAt := Some now\<rparr>
                            else r"
  let ?st' = "st1\<lparr>runs := map ?upd (runs st1)\<rparr>"
  let ?res = "\<lparr>runId = nextId st,
                         totalDiscovered = length dd,
                         newDocuments = newCount counts,
                         existingUpdated = updatedCount counts,
                         aliasesCreated = aliasCount counts,
                         errors = totalErrors,
                         bySource = bySource'\<rparr>"
  have run: "runDiscovery pf now options ds st = (Inr ?res, ?st')"
    unfolding runDiscovery_def Let_def
    by (simp add: bind_def discoveryRuns_create_ok[OF nf] da persistDiscoveries_def
        p[unfolded dd] discoveryRuns_update_ok[OF f1 ex] return_def dd)
  have last: "last (runs ?st') = ?upd ?run"
    unfolding ru1 by (simp add: last_map)
  show ?thesis
    apply (rule exI[of _ ?res], rule exI[of _ ?st'], rule exI[of _ counts], rule exI[of _ st1])
    using run f1 wf_catalog_runs'[OF wf1] p s1 last by simp
qed

text \<open>
  Claim C1, as amended. On a catalog with distinct document ids, when no round trip
  to the store fails and every discovered URL is a non-empty string, running discovery
  twice with the same discoverer outputs gives a second run that reports no new
  document and records \<^verbatim>\<open>urlsNew = 0\<close>, creates no document, and leaves every document
  as it was but for the \<^verbatim>\<open>lastSeen\<close> of its lineage entries and the \<^verbatim>\<open>updatedAt\<close> stamp
  of the store.
\<close>

theorem rediscovery_only_refreshes:
  assumes nf: "faults st0 = []" and wf: "wf_catalog st0"
    and ne: "\<forall>item \<in> set (fst (discoverAll (case options of Some s \<Rightarrow> s | None \<Rightarrow> [All]) ds)).
               url item \<noteq> []"
  shows "\<exists>res1 st1 res2 st2.
     runDiscovery pf now1 options ds st0 = (Inr res1, st1) \<and>
     runDiscovery pf now2 options ds st1 = (Inr res2, st2) \<and>
     newDocuments res2 = 0 \<and>
     r_id (last (runs st2)) = runId res2 \<and> r_urlsNew (last (runs st2)) = 0 \<and>
     length (documents st2) = length (documents st1) \<and>
     list_all2 onlyRefreshed (documents st1) (documents st2)"
proof -
  let ?sources = "case options of Some s \<Rightarrow> s | None \<Rightarrow> [All]"
  let ?dd = "deduplicateUrls (fst (discoverAll ?sources ds))"
  from runDiscovery_ok[OF nf wf ne, of pf now1] obtain res1 st1 where
    r1: "runDiscovery pf now1 options ds st0 = (Inr res1, st1)" and
    f1: "faults st1 = []" and wf1: "wf_catalog st1" and
    s1: "\<forall>d \<in> set ?dd. settled d (documents st1)"
    by blast
  let ?run = "\<lparr>r_id = nextId st1, r_source = str_join '','' (map sourceName ?sources),
             r_urlsFound = 0, r_urlsNew = 0,
             r_urlsChanged = 0, r_errors = 0, r_startedAt = now2, r_completedAt = None\<rparr>"
  let ?st = "st1\<lparr>nextId := Suc (nextId st1), runs := runs st1 @ [?run]\<rparr>"
  from runDiscovery_ok[OF f1 wf1 ne, of pf now2] obtain res2 st2 counts st3 where
    r2: "runDiscovery pf now2 options ds st1 = (Inr res2, st2)" and
    p: "persistLoop pf now2 ?dd \<lparr>newCount = 0, updatedCount = 0, aliasCount = 0\<rparr> ?st
          = (Inr counts, st3)" and
    d2: "documents st2 = documents st3" and
    n2: "newDocuments res2 = newCount counts" and
    i2: "runId res2 = nextId st1" and
    l2: "r_id (last (runs st2)) = nextId st1" "r_urlsNew (last (runs st2)) = newCount counts"
    by blast
  have f: "faults ?st = []" using f1 by simp
  have w: "wf_catalog ?st" by (rule wf_catalog_runs[OF wf1])
  have dist: "distinct (map d_canonicalUrl ?dd)" by (rule deduplicateUrls_distinct)
  have cne: "\<forall>d \<in> set ?dd. d_canonicalUrl d \<noteq> []"
  proof
    fix d assume "d \<in> set ?dd"
    then obtain item where "item \<in> set (fst (discoverAll ?sources ds))"
      "d_canonicalUrl d = normalizeUrl (url item)"
      using deduplicateUrls_canonical by blast
    with ne show "d_canonicalUrl d \<noteq> []" by (auto simp: normalizeUrl_nonempty)
  qed
  have s: "\<forall>d \<in> set ?dd. settled d (documents ?st)" using s1 by simp
  from persistLoop_again[OF f w dist cne s, of pf now2 "\<lparr>newCount = 0, updatedCount = 0, aliasCount = 0\<rparr>"]
  have c0: "newCount counts = 0" and o: "list_all2 onlyRefreshed (documents ?st) (documents st3)"
    unfolding p by auto
  from o have o': "list_all2 onlyRefreshed (documents st1) (documents st2)"
    by (simp add: d2)
  then have len: "length (documents st2) = length (documents st1)"
    by (simp add: list_all2_lengthD)
  show ?thesis
    apply (rule exI[of _ res1], rule exI[of _ st1], rule exI[of _ res2], rule exI[of _ st2])
    using r1 r2 n2 c0 i2 l2 len o' by simp
qed

lemma example_normalized: "normalizeUrl ''https://www.justice.gov/epstein/a.pdf'' = ''https://www.justice.gov/epstein/a.pdf''"
  by code_simp

lemma example_discoverAll: "discoverAll [All] exampleDiscoverers =
   ([\<lparr>url = ''https://www.justice.gov/epstein/a.pdf'', title = ''A'',
      sourceHub = ''https://www.justice.gov/epstein'', fileType = Pdf,
      discoverySource = ''hub-scrape''\<rparr>], [(''hub-scrape'', 1)], 2)"
  by (simp add: discoverAll_def runSource_def exampleDiscoverers_def sourceName_def)

lemma example_deduplicated: "deduplicateUrls
   [\<lparr>url = ''https://www.justice.gov/epstein/a.pdf'', title = ''A'',
      sourceHub = ''https://www.justice.gov/epstein'', fileType = Pdf,
      discoverySource = ''hub-scrape''\<rparr>] = [exampleItem]"
  by (simp add: deduplicateUrls_def example_normalized Let_def exampleItem_def)

lemma example_newDocument: "newDocument examplePlatform 1000 (Suc 0) (discoveredFields examplePlatform 1000 exampleItem) =
   exampleDocument 1000 ''1970-01-01''"
  by (simp add: newDocument_def discoveredFields_def noFields_def examplePlatform_def
      exampleDocument_def orNull_def orElse_def numberOrNull_def ratOrNull_def fileTypeName_def
      startsWith_def Let_def exampleItem_def)

lemma example_persist_first:
  "persistDiscoveries examplePlatform 1000 [exampleItem]
     \<lparr>documents = [], aliases = [], runs = rs, nextId = Suc 0, faults = []\<rparr> =
   (Inr \<lparr>newCount = 1, updatedCount = 0, aliasCount = 0\<rparr>,
    \<lparr>documents = [exampleDocument 1000 ''1970-01-01''], aliases = [], runs = rs,
       nextId = 2, faults = []\<rparr>)"
  by (simp add: persistDiscoveries_def persistDiscovery_def bind_def
      findByCanonicalUrlOrSourceUrl_ok lookup_def catch_def create_ok example_newDocument return_def)

lemma example_run_first:
  "runDiscovery examplePlatform 1000 None exampleDiscoverers emptyCatalog =
     (Inr \<lparr>runId = 0, totalDiscovered = 1, newDocuments = 1, existingUpdated = 0,
            aliasesCreated = 0, errors = 2, bySource = [(''hub-scrape'', 1)]\<rparr>,
      \<lparr>documents = [exampleDocument 1000 ''1970-01-01''], aliases = [],
         runs = [\<lparr>r_id = 0, r_source = ''all'', r_urlsFound = 1, r_urlsNew = 1,
                  r_urlsChanged = 0, r_errors = 2, r_startedAt = 1000,
                  r_completedAt = Some 1000\<rparr>],
         nextId = 2, faults = []\<rparr>)"
  by (simp add: runDiscovery_def example_discoverAll example_deduplicated bind_def discoveryRuns_create_ok emptyCatalog_def example_persist_first
      discoveryRuns_update_ok return_def sourceName_def Let_def)

lemma example_lookup:
  "lookup (d_canonicalUrl exampleItem) (d_url exampleItem) [exampleDocument t s] =
     Some (exampleDocument t s)"
  by (simp add: lookup_def exampleItem_def exampleDocument_def)

lemma example_sighted:
  "sighted examplePlatform 2000 exampleItem (exampleDocument 1000 ''1970-01-01'') =
     exampleDocument 2000 ''1970-01-01''"
  by (simp add: sighted_def exampleDocument_def truthy_def lineageOf_def seenAgain_def
      sameOrigin_def exampleItem_def examplePlatform_def)

lemma example_persist_again:
  "persistDiscoveries examplePlatform 2000 [exampleItem]
     \<lparr>documents = [exampleDocument 1000 ''1970-01-01''], aliases = [], runs = rs,
        nextId = n, faults = []\<rparr> =
   (Inr \<lparr>newCount = 0, updatedCount = 1, aliasCount = 0\<rparr>,
    \<lparr>documents = [exampleDocument 2000 ''1970-01-01''], aliases = [], runs = rs,
       nextId = n, faults = []\<rparr>)"
proof -
  let ?st = "\<lparr>documents = [exampleDocument 1000 ''1970-01-01''], aliases = [], runs = rs,
        nextId = n, faults = []\<rparr>"
  have ex: "\<exists>d \<in> set (documents ?st). e_id d = e_id (exampleDocument 1000 ''1970-01-01'')"
    by simp
  have nf: "faults ?st = []" by simp
  have up: "updated examplePlatform 2000 (e_id (exampleDocument 1000 ''1970-01-01''))
      (sightingFields examplePlatform 2000 exampleItem (exampleDocument 1000 ''1970-01-01''))
      [exampleDocument 1000 ''1970-01-01''] = [exampleDocument 2000 ''1970-01-01'']"
    by (simp add: updated_sighting example_sighted)
  have same: "e_sourceUrl (exampleDocument 1000 ''1970-01-01'') = d_url exampleItem"
    by (simp add: exampleItem_def exampleDocument_def)
  show ?thesis
    by (simp add: persistDiscoveries_def persistDiscovery_def bind_def
        findByCanonicalUrlOrSourceUrl_ok example_lookup update_ok[OF nf ex] up same return_def Let_def)
qed

lemma example_run_again:
  "runDiscovery examplePlatform 2000 None exampleDiscoverers
     \<lparr>documents = [exampleDocument 1000 ''1970-01-01''], aliases = [],
         runs = [\<lparr>r_id = 0, r_source = ''all'', r_urlsFound = 1, r_urlsNew = 1,
                  r_urlsChanged = 0, r_errors = 2, r_startedAt = 1000,
                  r_completedAt = Some 1000\<rparr>],
         nextId = 2, faults = []\<rparr> =
     (Inr \<lparr>runId = 2, totalDiscovered = 1, newDocuments = 0, existingUpdated = 1,
            aliasesCreated = 0, errors = 2, bySource = [(''hub-scrape'', 1)]\<rparr>,
      \<lparr>documents = [exampleDocument 2000 ''1970-01-01''], aliases = [],
         runs = [\<lparr>r_id = 0, r_source = ''all'', r_urlsFound = 1, r_urlsNew = 1,
                  r_urlsChanged = 0, r_errors = 2, r_startedAt = 1000,
                  r_completedAt = Some 1000\<rparr>,
                 \<lparr>r_id = 2, r_source = ''all'', r_urlsFound = 1, r_urlsNew = 0,
                  r_urlsChanged = 1, r_errors = 2, r_startedAt = 2000,
                  r_completedAt = Some 2000\<rparr>],
         nextId = 3, faults = []\<rparr>)"
  by (simp add: runDiscovery_def example_discoverAll example_deduplicated bind_def discoveryRuns_create_ok example_persist_again
      discoveryRuns_update_ok return_def sourceName_def Let_def)

lemma onlyLastSeenRefreshed_updatedAt:
  assumes "onlyLastSeenRefreshed a b"
  shows "e_updatedAt b = e_updatedAt a"
proof -
  from assms have "b = a\<lparr>e_discoveryLineage := e_discoveryLineage b\<rparr>"
    by (simp add: onlyLastSeenRefreshed_def)
  then have "e_updatedAt b = e_updatedAt (a\<lparr>e_discoveryLineage := e_discoveryLineage b\<rparr>)"
    by (rule arg_cong)
  also have "\<dots> = e_updatedAt a" by simp
  finally show ?thesis .
qed

text \<open>
  The claim as stated, that only \<^verbatim>\<open>lastSeen\<close> changes, fails: every \<^verbatim>\<open>update\<close> of the
  store stamps \<^verbatim>\<open>updatedAt\<close>. After a first run at instant 1000 on the empty catalog
  and a second at instant 2000, the document no longer has the \<^verbatim>\<open>updatedAt\<close> it had.
\<close>

theorem rediscovery_counterexample:
  "\<not> list_all2 onlyLastSeenRefreshed
       (documents (snd (runDiscovery examplePlatform 1000 None exampleDiscoverers emptyCatalog)))
       (documents (snd (runDiscovery examplePlatform 2000 None exampleDiscoverers
          (snd (runDiscovery examplePlatform 1000 None exampleDiscoverers emptyCatalog)))))"
proof -
  have "e_updatedAt (exampleDocument 2000 ''1970-01-01'') \<noteq>
        e_updatedAt (exampleDocument 1000 ''1970-01-01'')"
    by (simp add: exampleDocument_def)
  then have "\<not> onlyLastSeenRefreshed (exampleDocument 1000 ''1970-01-01'')
                 (exampleDocument 2000 ''1970-01-01'')"
    using onlyLastSeenRefreshed_updatedAt by blast
  then show ?thesis unfolding example_run_first snd_conv example_run_again Catalog.select_convs by simp
qed

theorem rediscovery_only_refreshes_witness:
  "\<exists>res1 st1 res2 st2.
     runDiscovery examplePlatform 1000 None exampleDiscoverers emptyCatalog = (Inr res1, st1) \<and>
     runDiscovery examplePlatform 2000 None exampleDiscoverers st1 = (Inr res2, st2) \<and>
     newDocuments res2 = 0 \<and>
     r_id (last (runs st2)) = runId res2 \<and> r_urlsNew (last (runs st2)) = 0 \<and>
     length (documents st2) = length (documents st1) \<and>
     list_all2 onlyRefreshed (documents st1) (documents st2)"
proof -
  have h1: "faults emptyCatalog = []" by (simp add: emptyCatalog_def)
  have h2: "wf_catalog emptyCatalog" by (simp add: emptyCatalog_def wf_catalog_def)
  have h3: "\<forall>item \<in> set (fst (discoverAll (case None of Some s \<Rightarrow> s | None \<Rightarrow> [All])
              exampleDiscoverers)). url item \<noteq> []"
    by (simp add: example_discoverAll)
  from rediscovery_only_refreshes[OF h1 h2 h3, of examplePlatform 1000 2000]
  show ?thesis .
qed

subsection \<open>Lineage\<close>

lemma refreshFirst_update:
  "find same l = Some e \<Longrightarrow>
   \<exists>k < length l. same (l ! k) \<and> (\<forall>j < k. \<not> same (l ! j)) \<and>
     refreshFirst same today l = l[k := (l ! k)\<lparr>l_lastSeen := today\<rparr>]"
proof (induction l)
  case Nil
  then show ?case by simp
next
  case (Cons a l)
  show ?case
  proof (cases "same a")
    case True
    then show ?thesis by (intro exI[of _ 0]) simp
  next
    case False
    with Cons.prems have "find same l = Some e" by simp
    from Cons.IH[OF this] obtain k where k: "k < length l" "same (l ! k)"
      "\<forall>j < k. \<not> same (l ! j)" "refreshFirst same today l = l[k := (l ! k)\<lparr>l_lastSeen := today\<rparr>]"
      by blast
    have "\<forall>j < Suc k. \<not> same ((a # l) ! j)"
      using False k(3) by (auto simp: less_Suc_eq_0_disj)
    with k False show ?thesis by (intro exI[of _ "Suc k"]) simp
  qed
qed

lemma keptLineage_refl [simp]: "keptLineage l l"
  by (simp add: keptLineage_def)

lemma keptLineage_trans:
  assumes "keptLineage a b" "keptLineage b c"
  shows "keptLineage a c"
  unfolding keptLineage_def
proof (intro conjI allI impI)
  show "length a \<le> length c" using assms by (simp add: keptLineage_def)
  fix j assume j: "j < length a"
  then have jb: "j < length b" using assms(1) by (simp add: keptLineage_def)
  have 1: "sameButLastSeen (a ! j) (b ! j)" using assms(1) j by (simp add: keptLineage_def)
  have 2: "sameButLastSeen (b ! j) (c ! j)" using assms(2) jb by (simp add: keptLineage_def)
  show "sameButLastSeen (a ! j) (c ! j)" by (rule sameButLastSeen_trans[OF 1 2])
qed

lemma keptLineage_seenAgain: "keptLineage l (seenAgain today doc l)"
proof (cases "find (sameOrigin doc) l")
  case None
  then show ?thesis by (simp add: seenAgain_def keptLineage_def nth_append)
next
  case (Some e)
  have "sameButLastSeen (l ! j) (refreshFirst (sameOrigin doc) today l ! j)" if "j < length l" for j
    using refreshFirst_sameButLastSeen[of l "sameOrigin doc" today] that
    by (simp add: list_all2_conv_all_nth)
  with Some show ?thesis by (simp add: seenAgain_def keptLineage_def)
qed

lemma lineagesKept_refl [simp]: "lineagesKept docs docs"
  by (simp add: lineagesKept_def)

lemma lineagesKept_trans:
  assumes "lineagesKept a b" "lineagesKept b c"
  shows "lineagesKept a c"
  unfolding lineagesKept_def
proof (intro conjI allI impI)
  show "length a \<le> length c" using assms by (simp add: lineagesKept_def)
  fix i assume i: "i < length a"
  then have ib: "i < length b" using assms(1) by (simp add: lineagesKept_def)
  have 1: "e_id (b ! i) = e_id (a ! i)" "keptLineage (lineageOf (a ! i)) (lineageOf (b ! i))"
    using assms(1) i by (simp_all add: lineagesKept_def)
  have 2: "e_id (c ! i) = e_id (b ! i)" "keptLineage (lineageOf (b ! i)) (lineageOf (c ! i))"
    using assms(2) ib by (simp_all add: lineagesKept_def)
  show "e_id (c ! i) = e_id (a ! i)" using 1 2 by simp
  show "keptLineage (lineageOf (a ! i)) (lineageOf (c ! i))"
    by (rule keptLineage_trans[OF 1(2) 2(2)])
qed

lemma lineagesKept_persisted:
  assumes "distinct (map e_id docs)"
  shows "lineagesKept docs (persisted pf now doc i docs)"
proof (cases "lookup (d_canonicalUrl doc) (d_url doc) docs")
  case None
  then show ?thesis by (simp add: persisted_new lineagesKept_def nth_append)
next
  case (Some ex)
  have "e_id (if d = ex then sighted pf now doc ex else d) = e_id d \<and>
        keptLineage (lineageOf d) (lineageOf (if d = ex then sighted pf now doc ex else d))" for d
    by (simp add: keptLineage_seenAgain)
  then show ?thesis
    unfolding persisted_found[OF assms Some] lineagesKept_def by simp
qed

lemma persistLoop_lineagesKept:
  assumes "faults st = []" "wf_catalog st"
  shows "\<exists>counts' st'. persistLoop pf now docs counts st = (Inr counts', st') \<and>
           faults st' = [] \<and> wf_catalog st' \<and> lineagesKept (documents st) (documents st')"
  using assms
proof (induction docs arbitrary: counts st)
  case Nil
  then show ?case by (simp add: return_def)
next
  case (Cons doc docs)
  from Cons.prems(2) have dist: "distinct (map e_id (documents st))"
    by (simp add: wf_catalog_def)
  obtain counts1 st1 where
    r1: "persistDiscovery pf now doc counts st = (Inr counts1, st1)" and
    f1: "faults st1 = []" and wf1: "wf_catalog st1" and
    d1: "documents st1 = persisted pf now doc (nextId st) (documents st)"
    using persistDiscovery_step[OF Cons.prems(1,2), of pf now doc counts] by metis
  from Cons.IH[OF f1 wf1, of counts1] obtain counts' st' where
    r2: "persistLoop pf now docs counts1 st1 = (Inr counts', st')" and
    f2: "faults st' = []" and wf2: "wf_catalog st'" and
    k2: "lineagesKept (documents st1) (documents st')"
    by blast
  have k1: "lineagesKept (documents st) (documents st1)"
    unfolding d1 by (rule lineagesKept_persisted[OF dist])
  have "persistLoop pf now (doc # docs) counts st = (Inr counts', st')"
    using r1 r2 by (simp add: bind_def)
  with f2 wf2 lineagesKept_trans[OF k1 k2] show ?case by blast
qed

lemma seenAgain_cases:
  "if \<exists>e \<in> set l. sameOrigin doc e
   then \<exists>k < length l. sameOrigin doc (l ! k) \<and> (\<forall>j < k. \<not> sameOrigin doc (l ! j)) \<and>
          seenAgain today doc l = l[k := (l ! k)\<lparr>l_lastSeen := today\<rparr>]
   else seenAgain today doc l =
          l @ [\<lparr>l_source = d_discoverySource doc, l_sourceId = d_sourceHub doc,
                l_firstSeen = today, l_lastSeen = today\<rparr>]"
proof (cases "find (sameOrigin doc) l")
  case None
  then have "\<not> (\<exists>e \<in> set l. sameOrigin doc e)" by (auto simp: find_None_iff)
  with None show ?thesis by (simp add: seenAgain_def)
next
  case (Some e)
  then have "\<exists>e \<in> set l. sameOrigin doc e" by (auto dest: find_SomeD)
  with Some refreshFirst_update[OF Some, of today] show ?thesis by (simp add: seenAgain_def)
qed

lemma persistDiscovery_existing:
  assumes nf: "faults st = []" and wf: "wf_catalog st"
    and l: "lookup (d_canonicalUrl doc) (d_url doc) (documents st) = Some ex"
  shows "\<exists>counts' st'.
     persistDiscovery pf now doc counts st = (Inr counts', st') \<and>
     faults st' = [] \<and> wf_catalog st' \<and>
     documents st' = map (\<lambda>d. if d = ex then sighted pf now doc ex else d) (documents st)"
proof -
  from wf have dist: "distinct (map e_id (documents st))" by (simp add: wf_catalog_def)
  obtain counts1 st1 where
    r1: "persistDiscovery pf now doc counts st = (Inr counts1, st1)" and
    f1: "faults st1 = []" and wf1: "wf_catalog st1" and
    d1: "documents st1 = persisted pf now doc (nextId st) (documents st)"
    using persistDiscovery_step[OF nf wf, of pf now doc counts] by metis
  with persisted_found[OF dist l] show ?thesis by simp
qed

lemma persistDiscovery_unseen:
  assumes nf: "faults st = []" and wf: "wf_catalog st"
    and l: "lookup (d_canonicalUrl doc) (d_url doc) (documents st) = None"
  shows "\<exists>counts' st'.
     persistDiscovery pf now doc counts st = (Inr counts', st') \<and>
     faults st' = [] \<and> wf_catalog st' \<and>
     documents st' =
       documents st @ [newDocument pf now (nextId st) (discoveredFields pf now doc)]"
proof -
  obtain counts1 st1 where
    r1: "persistDiscovery pf now doc counts st = (Inr counts1, st1)" and
    f1: "faults st1 = []" and wf1: "wf_catalog st1" and
    d1: "documents st1 = persisted pf now doc (nextId st) (documents st)"
    using persistDiscovery_step[OF nf wf, of pf now doc counts] by metis
  with persisted_new[OF l] show ?thesis by simp
qed

lemma persistDiscoveries_single:
  "persistDiscoveries pf now [doc] st =
     persistDiscovery pf now doc \<lparr>newCount = 0, updatedCount = 0, aliasCount = 0\<rparr> st"
  by (simp add: persistDiscoveries_def bind_def return_def split: prod.splits sum.splits)

lemma two_sources_one_record:
  assumes nf: "faults st = []" and wf: "wf_catalog st"
    and l: "lookup (d_canonicalUrl doc1) (d_url doc1) (documents st) = None"
    and c: "d_canonicalUrl doc1 \<noteq> []" "d_canonicalUrl doc2 = d_canonicalUrl doc1"
    and s: "d_discoverySource doc2 \<noteq> d_discoverySource doc1"
  shows "\<exists>counts1 st1 counts2 st2 r.
     persistDiscoveries pf now1 [doc1] st = (Inr counts1, st1) \<and>
     persistDiscoveries pf now2 [doc2] st1 = (Inr counts2, st2) \<and>
     documents st2 = documents st @ [r] \<and>
     lineageOf r =
       [\<lparr>l_source = d_discoverySource doc1, l_sourceId = d_sourceHub doc1,
         l_firstSeen = isoDate pf now1, l_lastSeen = isoDate pf now1\<rparr>,
        \<lparr>l_source = d_discoverySource doc2, l_sourceId = d_sourceHub doc2,
         l_firstSeen = isoDate pf now2, l_lastSeen = isoDate pf now2\<rparr>]"
proof -
  let ?r1 = "newDocument pf now1 (nextId st) (discoveredFields pf now1 doc1)"
  from persistDiscovery_unseen[OF nf wf l, of pf now1] obtain counts1 st1 where
    r1: "persistDiscovery pf now1 doc1 \<lparr>newCount = 0, updatedCount = 0, aliasCount = 0\<rparr> st
           = (Inr counts1, st1)" and
    f1: "faults st1 = []" and wf1: "wf_catalog st1" and
    d1: "documents st1 = documents st @ [?r1]"
    by blast
  from l have nocanon: "find (\<lambda>d. e_canonicalUrl d = Some (d_canonicalUrl doc1)) (documents st) = None"
    by (simp add: lookup_def split: option.splits)
  have l2: "lookup (d_canonicalUrl doc2) (d_url doc2) (documents st1) = Some ?r1"
    unfolding d1 c(2) using nocanon discovered_new(1)[OF c(1), of pf now1 "nextId st"]
    by (simp add: lookup_def find_append_case)
  from persistDiscovery_existing[OF f1 wf1 l2, of pf now2] obtain counts2 st2 where
    r2: "persistDiscovery pf now2 doc2 \<lparr>newCount = 0, updatedCount = 0, aliasCount = 0\<rparr> st1
           = (Inr counts2, st2)" and
    d2: "documents st2 = map (\<lambda>d. if d = ?r1 then sighted pf now2 doc2 ?r1 else d) (documents st1)"
    by blast
  from wf have "\<forall>d \<in> set (documents st). e_id d < nextId st"
    by (simp add: wf_catalog_def list_all_iff)
  then have notin: "?r1 \<notin> set (documents st)" by force
  have d2': "documents st2 = documents st @ [sighted pf now2 doc2 ?r1]"
    unfolding d2 d1 using notin by (auto intro!: map_idI)
  have "\<not> sameOrigin doc2
          \<lparr>l_source = d_discoverySource doc1, l_sourceId = d_sourceHub doc1,
           l_firstSeen = isoDate pf now1, l_lastSeen = isoDate pf now1\<rparr>"
    using s by (simp add: sameOrigin_def)
  then have lin: "lineageOf (sighted pf now2 doc2 ?r1) =
       [\<lparr>l_source = d_discoverySource doc1, l_sourceId = d_sourceHub doc1,
         l_firstSeen = isoDate pf now1, l_lastSeen = isoDate pf now1\<rparr>,
        \<lparr>l_source = d_discoverySource doc2, l_sourceId = d_sourceHub doc2,
         l_firstSeen = isoDate pf now2, l_lastSeen = isoDate pf now2\<rparr>]"
    by (simp add: discovered_new(2)[OF c(1)] seenAgain_def)
  show ?thesis
    apply (rule exI[of _ counts1], rule exI[of _ st1], rule exI[of _ counts2], rule exI[of _ st2],
        rule exI[of _ "sighted pf now2 doc2 ?r1"])
    using r1 r2 d2' lin by (simp add: persistDiscoveries_single)
qed

text \<open>
  Claim C7. On a catalog with distinct document ids, when no round trip to the store
  fails: (1) for an item that the store matches to an existing document \<open>ex\<close>, the step
  of \<^verbatim>\<open>persistDiscoveries\<close> changes that document only, and its lineage becomes the old
  one with a new entry appended exactly when no entry has the item's source and source
  hub, and otherwise the old one with the \<^verbatim>\<open>lastSeen\<close> of the first such entry
  refreshed; (2) hence an unseen canonical URL discovered from one source and then from
  another yields one new document with two lineage entries, not two documents; (3)
  whatever the items, every document keeps its lineage entries in place, changed at
  most in \<^verbatim>\<open>lastSeen\<close>.
\<close>

theorem lineage_append_or_refresh:
  assumes nf: "faults st = []" and wf: "wf_catalog st"
  shows
    "(\<forall>ex. lookup (d_canonicalUrl doc) (d_url doc) (documents st) = Some ex \<longrightarrow>
        (\<exists>counts' st' lineage.
           persistDiscovery pf now doc counts st = (Inr counts', st') \<and>
           documents st' =
             map (\<lambda>d. if d = ex
                       then ex\<lparr>e_canonicalUrl :=
                                   (if truthy (e_canonicalUrl ex) then e_canonicalUrl ex
                                    else Some (d_canonicalUrl doc)),
                                e_discoveryLineage := Some lineage,
                                e_updatedAt := now\<rparr>
                       else d)
               (documents st) \<and>
           (if \<exists>e \<in> set (lineageOf ex).
                 l_source e = d_discoverySource doc \<and> l_sourceId e = d_sourceHub doc
            then \<exists>k < length (lineageOf ex).
                   sameOrigin doc (lineageOf ex ! k) \<and>
                   (\<forall>j < k. \<not> sameOrigin doc (lineageOf ex ! j)) \<and>
                   lineage = (lineageOf ex)[k := (lineageOf ex ! k)\<lparr>l_lastSeen := isoDate pf now\<rparr>]
            else lineage =
                   lineageOf ex @
                   [\<lparr>l_source = d_discoverySource doc, l_sourceId = d_sourceHub doc,
                     l_firstSeen = isoDate pf now, l_lastSeen = isoDate pf now\<rparr>]))) \<and>
     (\<forall>(doc2 :: DeduplicatedDoc) now2.
        lookup (d_canonicalUrl doc) (d_url doc) (documents st) = None \<and>
        d_canonicalUrl doc \<noteq> [] \<and> d_canonicalUrl doc2 = d_canonicalUrl doc \<and>
        d_discoverySource doc2 \<noteq> d_discoverySource doc \<longrightarrow>
        (\<exists>counts1 st1 counts2 st2 r.
           persistDiscoveries pf now [doc] st = (Inr counts1, st1) \<and>
           persistDiscoveries pf now2 [doc2] st1 = (Inr counts2, st2) \<and>
           documents st2 = documents st @ [r] \<and>
           lineageOf r =
             [\<lparr>l_source = d_discoverySource doc, l_sourceId = d_sourceHub doc,
               l_firstSeen = isoDate pf now, l_lastSeen = isoDate pf now\<rparr>,
              \<lparr>l_source = d_discoverySource doc2, l_sourceId = d_sourceHub doc2,
               l_firstSeen = isoDate pf now2, l_lastSeen = isoDate pf now2\<rparr>])) \<and>
     (\<forall>docs. \<exists>counts' st'.
        persistDiscoveries pf now docs st = (Inr counts', st') \<and>
        lineagesKept (documents st) (documents st'))"
proof (intro conjI allI impI)
  fix ex assume l: "lookup (d_canonicalUrl doc) (d_url doc) (documents st) = Some ex"
  from persistDiscovery_existing[OF nf wf l, of pf now counts] obtain counts' st' where
    r: "persistDiscovery pf now doc counts st = (Inr counts', st')" and
    d: "documents st' = map (\<lambda>d. if d = ex then sighted pf now doc ex else d) (documents st)"
    by blast
  let ?L = "seenAgain (isoDate pf now) doc (lineageOf ex)"
  have s: "sighted pf now doc ex =
           ex\<lparr>e_canonicalUrl :=
                                   (if truthy (e_canonicalUrl ex) then e_canonicalUrl ex
                                    else Some (d_canonicalUrl doc)),
                                e_discoveryLineage := Some ?L,
                                e_updatedAt := now\<rparr>"
    by (simp add: sighted_def)
  have c: "if \<exists>e \<in> set (lineageOf ex).
                 l_source e = d_discoverySource doc \<and> l_sourceId e = d_sourceHub doc
            then \<exists>k < length (lineageOf ex).
                   sameOrigin doc (lineageOf ex ! k) \<and>
                   (\<forall>j < k. \<not> sameOrigin doc (lineageOf ex ! j)) \<and>
                   ?L = (lineageOf ex)[k := (lineageOf ex ! k)\<lparr>l_lastSeen := isoDate pf now\<rparr>]
            else ?L =
                   lineageOf ex @
                   [\<lparr>l_source = d_discoverySource doc, l_sourceId = d_sourceHub doc,
                     l_firstSeen = isoDate pf now, l_lastSeen = isoDate pf now\<rparr>]"
    using seenAgain_cases[of "lineageOf ex" doc "isoDate pf now"]
    by (simp add: sameOrigin_def)
  show "\<exists>counts' st' lineage.
           persistDiscovery pf now doc counts st = (Inr counts', st') \<and>
           documents st' =
             map (\<lambda>d. if d = ex
                       then ex\<lparr>e_canonicalUrl :=
                                   (if truthy (e_canonicalUrl ex) then e_canonicalUrl ex
                                    else Some (d_canonicalUrl doc)),
                                e_discoveryLineage := Some lineage,
                                e_updatedAt := now\<rparr>
                       else d)
               (documents st) \<and>
           (if \<exists>e \<in> set (lineageOf ex).
                 l_source e = d_discoverySource doc \<and> l_sourceId e = d_sourceHub doc
            then \<exists>k < length (lineageOf ex).
                   sameOrigin doc (lineageOf ex ! k) \<and>
                   (\<forall>j < k. \<not> sameOrigin doc (lineageOf ex ! j)) \<and>
                   lineage = (lineageOf ex)[k := (lineageOf ex ! k)\<lparr>l_lastSeen := isoDate pf now\<rparr>]
            else lineage =
                   lineageOf ex @
                   [\<lparr>l_source = d_discoverySource doc, l_sourceId = d_sourceHub doc,
                     l_firstSeen = isoDate pf now, l_lastSeen = isoDate pf now\<rparr>])"
    apply (rule exI[of _ counts'], rule exI[of _ st'], rule exI[of _ ?L])
    using r d c unfolding s by blast
next
  fix doc2 :: DeduplicatedDoc and now2
  assume a: "lookup (d_canonicalUrl doc) (d_url doc) (documents st) = None \<and>
        d_canonicalUrl doc \<noteq> [] \<and> d_canonicalUrl doc2 = d_canonicalUrl doc \<and>
        d_discoverySource doc2 \<noteq> d_discoverySource doc"
  then show "\<exists>counts1 st1 counts2 st2 r.
           persistDiscoveries pf now [doc] st = (Inr counts1, st1) \<and>
           persistDiscoveries pf now2 [doc2] st1 = (Inr counts2, st2) \<and>
           documents st2 = documents st @ [r] \<and>
           lineageOf r =
             [\<lparr>l_source = d_discoverySource doc, l_sourceId = d_sourceHub doc,
               l_firstSeen = isoDate pf now, l_lastSeen = isoDate pf now\<rparr>,
              \<lparr>l_source = d_discoverySource doc2, l_sourceId = d_sourceHub doc2,
               l_firstSeen = isoDate pf now2, l_lastSeen = isoDate pf now2\<rparr>]"
    using two_sources_one_record[OF nf wf, of doc doc2 pf now now2] by blast
next
  fix docs
  from persistLoop_lineagesKept[OF nf wf, of pf now docs]
  show "\<exists>counts' st'.
        persistDiscoveries pf now docs st = (Inr counts', st') \<and>
        lineagesKept (documents st) (documents st')"
    unfolding persistDiscoveries_def by blast
qed

theorem lineage_append_or_refresh_witness:
  "\<exists>counts' st' lineage.
     persistDiscovery examplePlatform 2000 exampleArchiveItem
       \<lparr>newCount = 0, updatedCount = 0, aliasCount = 0\<rparr> exampleCatalog = (Inr counts', st') \<and>
     documents st' =
       map (\<lambda>d. if d = exampleDocument 1000 ''1970-01-01''
                 then (exampleDocument 1000 ''1970-01-01'')
                        \<lparr>e_canonicalUrl :=
                           (if truthy (e_canonicalUrl (exampleDocument 1000 ''1970-01-01''))
                            then e_canonicalUrl (exampleDocument 1000 ''1970-01-01'')
                            else Some (d_canonicalUrl exampleArchiveItem)),
                         e_discoveryLineage := Some lineage,
                         e_updatedAt := 2000\<rparr>
                 else d)
         (documents exampleCatalog) \<and>
     lineage =
       lineageOf (exampleDocument 1000 ''1970-01-01'') @
       [\<lparr>l_source = d_discoverySource exampleArchiveItem,
         l_sourceId = d_sourceHub exampleArchiveItem,
         l_firstSeen = isoDate examplePlatform 2000, l_lastSeen = isoDate examplePlatform 2000\<rparr>]"
proof -
  have h1: "faults exampleCatalog = []" by (simp add: exampleCatalog_def)
  have h2: "wf_catalog exampleCatalog"
    by (simp add: exampleCatalog_def wf_catalog_def exampleDocument_def)
  have l: "lookup (d_canonicalUrl exampleArchiveItem) (d_url exampleArchiveItem)
             (documents exampleCatalog) = Some (exampleDocument 1000 ''1970-01-01'')"
    by (simp add: lookup_def exampleCatalog_def exampleArchiveItem_def exampleDocument_def)
  have n: "\<not> (\<exists>e \<in> set (lineageOf (exampleDocument 1000 ''1970-01-01'')).
              l_source e = d_discoverySource exampleArchiveItem \<and>
              l_sourceId e = d_sourceHub exampleArchiveItem)"
    by (simp add: lineageOf_def exampleDocument_def exampleArchiveItem_def)
  from lineage_append_or_refresh[OF h1 h2, of exampleArchiveItem examplePlatform 2000
      "\<lparr>newCount = 0, updatedCount = 0, aliasCount = 0\<rparr>"] l
  have "\<exists>counts' st' lineage.
     persistDiscovery examplePlatform 2000 exampleArchiveItem
       \<lparr>newCount = 0, updatedCount = 0, aliasCount = 0\<rparr> exampleCatalog = (Inr counts', st') \<and>
     documents st' =
       map (\<lambda>d. if d = exampleDocument 1000 ''1970-01-01''
                 then (exampleDocument 1000 ''1970-01-01'')
                        \<lparr>e_canonicalUrl :=
                           (if truthy (e_canonicalUrl (exampleDocument 1000 ''1970-01-01''))
                            then e_canonicalUrl (exampleDocument 1000 ''1970-01-01'')
                            else Some (d_canonicalUrl exampleArchiveItem)),
                         e_discoveryLineage := Some lineage,
                         e_updatedAt := 2000\<rparr>
                 else d)
         (documents exampleCatalog) \<and>
     (if \<exists>e \<in> set (lineageOf (exampleDocument 1000 ''1970-01-01'')).
              l_source e = d_discoverySource exampleArchiveItem \<and>
              l_sourceId e = d_sourceHub exampleArchiveItem
      then \<exists>k < length (lineageOf (exampleDocument 1000 ''1970-01-01'')).
             sameOrigin exampleArchiveItem (lineageOf (exampleDocument 1000 ''1970-01-01'') ! k) \<and>
             (\<forall>j < k. \<not> sameOrigin exampleArchiveItem
                         (lineageOf (exampleDocument 1000 ''1970-01-01'') ! j)) \<and>
             lineage = (lineageOf (exampleDocument 1000 ''1970-01-01''))
               [k := (lineageOf (exampleDocument 1000 ''1970-01-01'') ! k)
                       \<lparr>l_lastSeen := isoDate examplePlatform 2000\<rparr>]
      else lineage =
       lineageOf (exampleDocument 1000 ''1970-01-01'') @
       [\<lparr>l_source = d_discoverySource exampleArchiveItem,
         l_sourceId = d_sourceHub exampleArchiveItem,
         l_firstSeen = isoDate examplePlatform 2000, l_lastSeen = isoDate examplePlatform 2000\<rparr>])"
    by blast
  then show ?thesis unfolding if_not_P[OF n] .
qed

subsection \<open>Created documents\<close>

lemma discoveredAs_new: "discoveredAs doc (newDocument pf now i (discoveredFields pf now doc))"
  by (cases "d_fileType doc")
     (simp_all add: discoveredAs_def newDocument_def discoveredFields_def noFields_def orNull_def
       orElse_def fileTypeName_def Let_def)

lemma discoveredAs_sighted:
  "discoveredAs doc r \<Longrightarrow> discoveredAs doc (sighted pf now doc' r)"
  by (simp add: discoveredAs_def sighted_def)

lemma discoveredAs_fileType: "discoveredAs doc r \<Longrightarrow> e_fileType r = ''pdf'' \<or> e_fileType r = ''html''"
  by (cases "d_fileType doc") (simp_all add: discoveredAs_def)

lemma created_persisted:
  assumes dist: "distinct (map e_id docs)" and n: "n \<le> length docs"
    and inv: "\<forall>r \<in> set (drop n docs). \<exists>d \<in> S. discoveredAs d r"
    and doc: "doc \<in> S"
  shows "n \<le> length (persisted pf now doc i docs) \<and>
         (\<forall>r \<in> set (drop n (persisted pf now doc i docs)). \<exists>d \<in> S. discoveredAs d r)"
proof (cases "lookup (d_canonicalUrl doc) (d_url doc) docs")
  case None
  have "\<exists>d \<in> S. discoveredAs d (newDocument pf now i (discoveredFields pf now doc))"
    using doc discoveredAs_new by blast
  then show ?thesis
    unfolding persisted_new[OF None] using n inv by auto
next
  case (Some ex)
  let ?g = "\<lambda>d. if d = ex then sighted pf now doc ex else d"
  have "\<exists>d \<in> S. discoveredAs d (?g r)" if "\<exists>d \<in> S. discoveredAs d r" for r
  proof -
    from that obtain d where d: "d \<in> S" "discoveredAs d r" by blast
    from d(2) have "discoveredAs d (sighted pf now doc r)" by (rule discoveredAs_sighted)
    with d show ?thesis by (cases "r = ex") auto
  qed
  note keep = this
  have "\<forall>r \<in> set (drop n (map ?g docs)). \<exists>d \<in> S. discoveredAs d r"
    unfolding drop_map
  proof
    fix r assume "r \<in> set (map ?g (drop n docs))"
    then obtain r0 where r0: "r0 \<in> set (drop n docs)" "r = ?g r0" by auto
    from inv r0(1) have "\<exists>d \<in> S. discoveredAs d r0" by blast
    from keep[OF this] show "\<exists>d \<in> S. discoveredAs d r" unfolding r0(2) .
  qed
  then show ?thesis unfolding persisted_found[OF dist Some] using n by simp
qed

lemma persistLoop_created:
  assumes "faults st = []" "wf_catalog st" "n \<le> length (documents st)"
    "\<forall>r \<in> set (drop n (documents st)). \<exists>d \<in> S. discoveredAs d r" "set docs \<subseteq> S"
  shows "\<exists>counts' st'. persistLoop pf now docs counts st = (Inr counts', st') \<and>
           (\<forall>r \<in> set (drop n (documents st')). \<exists>d \<in> S. discoveredAs d r)"
  using assms
proof (induction docs arbitrary: counts st)
  case Nil
  then show ?case by (simp add: return_def)
next
  case (Cons doc docs)
  from Cons.prems(2) have dist: "distinct (map e_id (documents st))"
    by (simp add: wf_catalog_def)
  obtain counts1 st1 where
    r1: "persistDiscovery pf now doc counts st = (Inr counts1, st1)" and
    f1: "faults st1 = []" and wf1: "wf_catalog st1" and
    d1: "documents st1 = persisted pf now doc (nextId st) (documents st)"
    using persistDiscovery_step[OF Cons.prems(1,2), of pf now doc counts] by metis
  from Cons.prems(5) have doc: "doc \<in> S" and rest: "set docs \<subseteq> S" by auto
  from created_persisted[OF dist Cons.prems(3,4) doc, of pf now "nextId st"]
  have n1: "n \<le> length (documents st1)"
    and i1: "\<forall>r \<in> set (drop n (documents st1)). \<exists>d \<in> S. discoveredAs d r"
    unfolding d1 by auto
  from Cons.IH[OF f1 wf1 n1 i1 rest, of counts1] obtain counts' st' where
    r2: "persistLoop pf now docs counts1 st1 = (Inr counts', st')" and
    i2: "\<forall>r \<in> set (drop n (documents st')). \<exists>d \<in> S. discoveredAs d r"
    by blast
  have "persistLoop pf now (doc # docs) counts st = (Inr counts', st')"
    using r1 r2 by (simp add: bind_def)
  with i2 show ?case by blast
qed

text \<open>
  Claim C10. Every document that \<^verbatim>\<open>persistDiscoveries\<close> creates has file type
  \<^verbatim>\<open>pdf\<close> or \<^verbatim>\<open>html\<close>, an item of unknown file type being stored as \<^verbatim>\<open>pdf\<close>, and the
  document type that follows from the item's classified file type: \<^verbatim>\<open>EFTA Disclosure\<close>
  for a PDF whose URL contains \<^verbatim>\<open>EFTA\<close>, \<^verbatim>\<open>Court Document\<close> for another PDF, and
  \<^verbatim>\<open>Web Page\<close> otherwise.
\<close>

theorem created_documents_classified:
  assumes nf: "faults st = []" and wf: "wf_catalog st"
  shows "\<exists>counts' st'.
     persistDiscoveries pf now docs st = (Inr counts', st') \<and>
     (\<forall>r \<in> set (drop (length (documents st)) (documents st')).
        (e_fileType r = ''pdf'' \<or> e_fileType r = ''html'') \<and>
        (\<exists>doc \<in> set docs.
           e_sourceUrl r = d_url doc \<and>
           e_fileType r = (case d_fileType doc of Html \<Rightarrow> ''html'' | Pdf \<Rightarrow> ''pdf'' | Unknown \<Rightarrow> ''pdf'') \<and>
           e_documentType r =
             Some (case d_fileType doc of
                     Pdf \<Rightarrow> (if str_includes (d_url doc) ''EFTA'' then ''EFTA Disclosure''
                             else ''Court Document'')
                   | Html \<Rightarrow> ''Web Page''
                   | Unknown \<Rightarrow> ''Web Page'')))"
proof -
  from persistLoop_created[OF nf wf, of "length (documents st)" "set docs" docs pf now
      "\<lparr>newCount = 0, updatedCount = 0, aliasCount = 0\<rparr>"]
  obtain counts' st' where
    r: "persistDiscoveries pf now docs st = (Inr counts', st')" and
    i: "\<forall>r \<in> set (drop (length (documents st)) (documents st')). \<exists>d \<in> set docs. discoveredAs d r"
    unfolding persistDiscoveries_def by auto
  have "(e_fileType r = ''pdf'' \<or> e_fileType r = ''html'') \<and> (\<exists>doc \<in> set docs. discoveredAs doc r)"
    if "r \<in> set (drop (length (documents st)) (documents st'))" for r
    using i that discoveredAs_fileType by blast
  with r show ?thesis unfolding discoveredAs_def by blast
qed

theorem created_documents_classified_witness:
  "\<exists>counts' st'.
     persistDiscoveries examplePlatform 1000 [exampleArchiveItem] emptyCatalog = (Inr counts', st') \<and>
     length (documents st') = 1 \<and>
     (\<exists>r \<in> set (drop (length (documents emptyCatalog)) (documents st')).
        e_sourceUrl r = ''http://www.justice.gov/epstein/a.pdf'' \<and>
        e_fileType r = ''pdf'' \<and> e_documentType r = Some ''Web Page'')"
proof -
  have h1: "faults emptyCatalog = []" by (simp add: emptyCatalog_def)
  have h2: "wf_catalog emptyCatalog" by (simp add: emptyCatalog_def wf_catalog_def)
  from created_documents_classified[OF h1 h2, of examplePlatform 1000 "[exampleArchiveItem]"]
  obtain counts' st' where
    r: "persistDiscoveries examplePlatform 1000 [exampleArchiveItem] emptyCatalog = (Inr counts', st')"
    and a: "\<forall>r \<in> set (drop (length (documents emptyCatalog)) (documents st')).
        (e_fileType r = ''pdf'' \<or> e_fileType r = ''html'') \<and>
        (\<exists>doc \<in> set [exampleArchiveItem].
           e_sourceUrl r = d_url doc \<and>
           e_fileType r = (case d_fileType doc of Html \<Rightarrow> ''html'' | Pdf \<Rightarrow> ''pdf'' | Unknown \<Rightarrow> ''pdf'') \<and>
           e_documentType r =
             Some (case d_fileType doc of
                     Pdf \<Rightarrow> (if str_includes (d_url doc) ''EFTA'' then ''EFTA Disclosure''
                             else ''Court Document'')
                   | Html \<Rightarrow> ''Web Page''
                   | Unknown \<Rightarrow> ''Web Page''))"
    by blast
  have l: "lookup (d_canonicalUrl exampleArchiveItem) (d_url exampleArchiveItem)
             (documents emptyCatalog) = None"
    by (simp add: lookup_def emptyCatalog_def)
  from persistDiscovery_unseen[OF h1 h2 l, of examplePlatform 1000
      "\<lparr>newCount = 0, updatedCount = 0, aliasCount = 0\<rparr>"] r
  have d: "documents st' =
      [newDocument examplePlatform 1000 (nextId emptyCatalog)
         (discoveredFields examplePlatform 1000 exampleArchiveItem)]"
    by (auto simp: persistDiscoveries_single emptyCatalog_def)
  then have len: "length (documents st') = 1" by simp
  let ?r = "newDocument examplePlatform 1000 (nextId emptyCatalog)
         (discoveredFields examplePlatform 1000 exampleArchiveItem)"
  have "?r \<in> set (drop (length (documents emptyCatalog)) (documents st'))"
    unfolding d by (simp add: emptyCatalog_def)
  moreover from a this have
    "e_sourceUrl ?r = ''http://www.justice.gov/epstein/a.pdf'' \<and>
        e_fileType ?r = ''pdf'' \<and> e_documentType ?r = Some ''Web Page''"
    by (simp add: exampleArchiveItem_def)
  ultimately show ?thesis using r len by blast
qed

subsection \<open>Rounding to a double\<close>

lemma pow2_powi: "pow2 k = 2 powi k"
  by (simp add: pow2_def power_int_def inverse_eq_divide power_one_over)

lemma pow2_pos: "0 < pow2 k"
  by (simp add: pow2_powi)

lemma pow2_add: "pow2 (a + b) = pow2 a * pow2 b"
  by (simp add: pow2_powi power_int_add)

lemma pow2_mono: "a \<le> b \<Longrightarrow> pow2 a \<le> pow2 b"
  by (simp add: pow2_powi power_int_increasing)

lemma pow2_nat: "0 \<le> k \<Longrightarrow> pow2 k = 2 ^ nat k"
  by (simp add: pow2_def)

lemma exponentOf_bounds:
  assumes "0 < x"
  shows "pow2 (exponentOf x) \<le> x" and "x < pow2 (exponentOf x + 1)"
proof -
  show "pow2 (exponentOf x) \<le> x"
  proof (cases "1 \<le> x")
    case True
    then have n: "0 < \<lfloor>x\<rfloor>" by simp
    from bitlen_bounds[OF n] have "(2::int) ^ nat (bitlen \<lfloor>x\<rfloor> - 1) \<le> \<lfloor>x\<rfloor>" by simp
    then have "of_int ((2::int) ^ nat (bitlen \<lfloor>x\<rfloor> - 1)) \<le> (of_int \<lfloor>x\<rfloor> :: rat)"
      by (simp only: of_int_le_iff)
    also have "\<dots> \<le> x" by simp
    finally have "(2::rat) ^ nat (bitlen \<lfloor>x\<rfloor> - 1) \<le> x" by simp
    moreover have "1 \<le> bitlen \<lfloor>x\<rfloor>" using n by (simp add: bitlen_alt_def)
    ultimately show ?thesis using True by (simp add: exponentOf_def pow2_def)
  next
    case False
    let ?y = "1 / x"
    let ?m = "\<lceil>?y\<rceil> - 1"
    from False assms have y: "1 < ?y" by simp
    then have "1 < \<lceil>?y\<rceil>" by (simp add: less_ceiling_iff)
    then have m: "0 < ?m" by simp
    from bitlen_bounds[OF m] have "?m < 2 ^ nat (bitlen ?m)" by simp
    then have "\<lceil>?y\<rceil> \<le> 2 ^ nat (bitlen ?m)" by simp
    then have "(of_int \<lceil>?y\<rceil> :: rat) \<le> of_int (2 ^ nat (bitlen ?m))"
      by (simp only: of_int_le_iff)
    with le_of_int_ceiling[of ?y] have "?y \<le> of_int (2 ^ nat (bitlen ?m))"
      by (rule order_trans)
    then have "?y \<le> 2 ^ nat (bitlen ?m)"
      by simp
    then have "1 / 2 ^ nat (bitlen ?m) \<le> x"
      using assms by (simp add: field_simps)
    moreover have "0 < bitlen ?m" using m by (simp add: bitlen_alt_def)
    ultimately show ?thesis using False by (simp add: exponentOf_def pow2_def)
  qed
  show "x < pow2 (exponentOf x + 1)"
  proof (cases "1 \<le> x")
    case True
    then have n: "0 < \<lfloor>x\<rfloor>" by simp
    from bitlen_bounds[OF n] have "\<lfloor>x\<rfloor> < (2::int) ^ nat (bitlen \<lfloor>x\<rfloor>)" by simp
    then have "\<lfloor>x\<rfloor> + 1 \<le> (2::int) ^ nat (bitlen \<lfloor>x\<rfloor>)" by simp
    then have "(of_int (\<lfloor>x\<rfloor> + 1) :: rat) \<le> of_int ((2::int) ^ nat (bitlen \<lfloor>x\<rfloor>))"
      by (simp only: of_int_le_iff)
    with floor_correct[of x, THEN conjunct2]
    have "x < of_int ((2::int) ^ nat (bitlen \<lfloor>x\<rfloor>))"
      by (rule order_less_le_trans)
    then have "x < 2 ^ nat (bitlen \<lfloor>x\<rfloor>)" by simp
    moreover have "0 \<le> bitlen \<lfloor>x\<rfloor>" by (rule bitlen_nonneg)
    ultimately show ?thesis using True by (simp add: exponentOf_def pow2_def)
  next
    case False
    let ?y = "1 / x"
    let ?m = "\<lceil>?y\<rceil> - 1"
    from False assms have y: "1 < ?y" by simp
    then have "1 < \<lceil>?y\<rceil>" by (simp add: less_ceiling_iff)
    then have m: "0 < ?m" by simp
    have k: "1 \<le> bitlen ?m" using m by (simp add: bitlen_alt_def)
    from bitlen_bounds[OF m] have "(2::int) ^ nat (bitlen ?m - 1) \<le> ?m" by simp
    then have "(of_int ((2::int) ^ nat (bitlen ?m - 1)) :: rat) \<le> of_int ?m"
      by (simp only: of_int_le_iff)
    moreover have "of_int ?m < ?y"
      using ceiling_correct[of ?y] by simp
    ultimately have "(of_int ((2::int) ^ nat (bitlen ?m - 1)) :: rat) < ?y"
      by (rule order_le_less_trans)
    then have "2 ^ nat (bitlen ?m - 1) < ?y" by simp
    then have "x < 1 / 2 ^ nat (bitlen ?m - 1)"
      using assms by (simp add: field_simps)
    moreover have "pow2 (- bitlen ?m + 1) = 1 / 2 ^ nat (bitlen ?m - 1)"
      using k by (cases "bitlen ?m = 1") (simp_all add: pow2_def)
    ultimately show ?thesis using False by (simp add: exponentOf_def)
  qed
qed


lemma roundHalfEven_cases:
  "roundHalfEven y = \<lfloor>y\<rfloor> \<and> y - of_int \<lfloor>y\<rfloor> \<le> 1 / 2 \<or>
   roundHalfEven y = \<lfloor>y\<rfloor> + 1 \<and> 1 / 2 \<le> y - of_int \<lfloor>y\<rfloor>"
  by (auto simp: roundHalfEven_def Let_def)

lemma roundHalfEven_ge:
  assumes "of_int n \<le> y"
  shows "n \<le> roundHalfEven y"
proof -
  from assms have "n \<le> \<lfloor>y\<rfloor>" by (simp add: le_floor_iff)
  then show ?thesis using roundHalfEven_cases[of y] by auto
qed

lemma roundHalfEven_le:
  assumes "y \<le> of_int n"
  shows "roundHalfEven y \<le> n"
proof (cases "y = of_int n")
  case True
  then show ?thesis by (simp add: roundHalfEven_def)
next
  case False
  with assms have "y < of_int n" by simp
  then have "\<lfloor>y\<rfloor> < n" by (simp add: floor_less_iff)
  then show ?thesis using roundHalfEven_cases[of y] by auto
qed

lemma roundHalfEven_less:
  assumes "y < of_int n - 1 / 2"
  shows "roundHalfEven y < n"
proof -
  from assms have "y < of_int n" by simp
  then have f: "\<lfloor>y\<rfloor> < n" by (simp add: floor_less_iff)
  show ?thesis
  proof (cases "\<lfloor>y\<rfloor> + 1 < n")
    case True
    then show ?thesis using roundHalfEven_cases[of y] by auto
  next
    case False
    with f have n: "n = \<lfloor>y\<rfloor> + 1" by simp
    with assms have "y - of_int \<lfloor>y\<rfloor> < 1 / 2" by simp
    then show ?thesis using roundHalfEven_cases[of y] n by auto
  qed
qed

lemma ulp_pos: "0 < ulp x"
  by (simp add: ulp_def pow2_pos)

lemma toDouble_ulp: "x \<noteq> 0 \<Longrightarrow> toDouble x = of_int (roundHalfEven (x / ulp x)) * ulp x"
  by (simp add: toDouble_def)

lemma toDouble_ge:
  assumes "x \<noteq> 0" "of_int n * ulp x \<le> x"
  shows "of_int n * ulp x \<le> toDouble x"
proof -
  from assms(2) ulp_pos[of x] have "of_int n \<le> x / ulp x"
    by (simp add: pos_le_divide_eq)
  then have "n \<le> roundHalfEven (x / ulp x)" by (rule roundHalfEven_ge)
  then have "(of_int n :: rat) \<le> of_int (roundHalfEven (x / ulp x))" by simp
  then show ?thesis
    using ulp_pos[of x] by (simp add: toDouble_ulp[OF assms(1)])
qed

lemma toDouble_le:
  assumes "x \<noteq> 0" "x \<le> of_int n * ulp x"
  shows "toDouble x \<le> of_int n * ulp x"
proof -
  from assms(2) ulp_pos[of x] have "x / ulp x \<le> of_int n"
    by (simp add: pos_divide_le_eq)
  then have "roundHalfEven (x / ulp x) \<le> n" by (rule roundHalfEven_le)
  then have "(of_int (roundHalfEven (x / ulp x)) :: rat) \<le> of_int n" by simp
  then show ?thesis
    using ulp_pos[of x] by (simp add: toDouble_ulp[OF assms(1)])
qed

lemma binade:
  "of_int (2 ^ 52) * pow2 (e - 52) = pow2 e" "of_int (2 ^ 53) * pow2 (e - 52) = pow2 (e + 1)"
proof -
  have "pow2 e = pow2 (52 + (e - 52))" by simp
  also have "\<dots> = pow2 52 * pow2 (e - 52)" by (rule pow2_add)
  finally show "of_int (2 ^ 52) * pow2 (e - 52) = pow2 e" by (simp add: pow2_nat)
  have "e + 1 = 53 + (e - 52)" by simp
  then have "pow2 (e + 1) = pow2 (53 + (e - 52))" by (rule arg_cong)
  also have "\<dots> = pow2 53 * pow2 (e - 52)" by (rule pow2_add)
  finally show "of_int (2 ^ 53) * pow2 (e - 52) = pow2 (e + 1)" by (simp add: pow2_nat)
qed

lemma toDouble_binade:
  assumes "0 < x"
  shows "pow2 (exponentOf x) \<le> toDouble x" and "toDouble x \<le> pow2 (exponentOf x + 1)"
proof -
  from assms have a: "\<bar>x\<bar> = x" "x \<noteq> 0" by simp_all
  have "of_int (2 ^ 52) * ulp x \<le> x"
    using exponentOf_bounds(1)[OF assms] by (simp only: ulp_def a binade)
  from toDouble_ge[OF a(2) this] show "pow2 (exponentOf x) \<le> toDouble x"
    by (simp only: ulp_def a binade)
  have "x \<le> of_int (2 ^ 53) * ulp x"
    using exponentOf_bounds(2)[OF assms] by (simp only: ulp_def a binade)
  from toDouble_le[OF a(2) this] show "toDouble x \<le> pow2 (exponentOf x + 1)"
    by (simp only: ulp_def a binade)
qed

lemma toDouble_ge_50:
  assumes "50 \<le> x"
  shows "50 \<le> toDouble x"
proof -
  from assms have x: "0 < x" "x \<noteq> 0" "\<bar>x\<bar> = x" by simp_all
  have e: "5 \<le> exponentOf x"
  proof (rule ccontr)
    assume "\<not> 5 \<le> exponentOf x"
    then have "exponentOf x + 1 \<le> 5" by simp
    then have "pow2 (exponentOf x + 1) \<le> pow2 5" by (rule pow2_mono)
    with exponentOf_bounds(2)[OF x(1)] have "x < pow2 5" by simp
    with assms show False by (simp add: pow2_def)
  qed
  show ?thesis
  proof (cases "exponentOf x = 5")
    case True
    then have u: "ulp x = pow2 (- 47)" by (simp add: ulp_def x)
    have "of_int (50 * 2 ^ 47) * ulp x = 50"
      by (simp add: u pow2_def)
    with toDouble_ge[OF x(2), of "50 * 2 ^ 47"] assms show ?thesis by simp
  next
    case False
    with e have "6 \<le> exponentOf x" by simp
    then have "pow2 6 \<le> pow2 (exponentOf x)" by (rule pow2_mono)
    with toDouble_binade(1)[OF x(1)] have "pow2 6 \<le> toDouble x" by simp
    then show ?thesis by (simp add: pow2_def)
  qed
qed

lemma toDouble_less_50:
  assumes "0 < x" "x < 50 - pow2 (- 48)"
  shows "toDouble x < 50"
proof -
  from assms have x: "x \<noteq> 0" "\<bar>x\<bar> = x" by simp_all
  have "0 < pow2 (- 48)" by (rule pow2_pos)
  with assms(2) have x50: "x < 50" by simp
  have e: "exponentOf x \<le> 5"
  proof (rule ccontr)
    assume "\<not> exponentOf x \<le> 5"
    then have "6 \<le> exponentOf x" by simp
    then have "pow2 6 \<le> pow2 (exponentOf x)" by (rule pow2_mono)
    with exponentOf_bounds(1)[OF assms(1)] have "pow2 6 \<le> x" by simp
    with x50 show False by (simp add: pow2_def)
  qed
  show ?thesis
  proof (cases "exponentOf x = 5")
    case True
    then have u: "ulp x = pow2 (- 47)" by (simp add: ulp_def x)
    have "x / ulp x < of_int (50 * 2 ^ 47) - 1 / 2"
      using assms(2) by (simp add: u pow2_def field_simps)
    then have "roundHalfEven (x / ulp x) < 50 * 2 ^ 47" by (rule roundHalfEven_less)
    then have "roundHalfEven (x / ulp x) \<le> 50 * 2 ^ 47 - 1" by simp
    then have "(of_int (roundHalfEven (x / ulp x)) :: rat) \<le> of_int (50 * 2 ^ 47 - 1)"
      by (simp only: of_int_le_iff)
    then have "toDouble x \<le> of_int (50 * 2 ^ 47 - 1) * ulp x"
      using ulp_pos[of x] by (simp only: toDouble_ulp[OF x(1)] mult_le_cancel_right_pos)
    also have "\<dots> < 50" by (simp add: u pow2_def)
    finally show ?thesis .
  next
    case False
    with e have "exponentOf x + 1 \<le> 5" by simp
    then have "pow2 (exponentOf x + 1) \<le> pow2 5" by (rule pow2_mono)
    with toDouble_binade(2)[OF assms(1)] have "toDouble x \<le> pow2 5" by simp
    then show ?thesis by (simp add: pow2_def)
  qed
qed

lemma toDouble_below_threshold:
  fixes a b :: nat
  assumes "0 < b" "b < 2 ^ 48"
  shows "toDouble (of_nat a / of_nat b) < 50 \<longleftrightarrow> (of_nat a / of_nat b :: rat) < 50"
proof
  assume "toDouble (of_nat a / of_nat b) < 50"
  then show "(of_nat a / of_nat b :: rat) < 50"
    using toDouble_ge_50[of "of_nat a / of_nat b"] by (meson not_less)
next
  assume l: "(of_nat a / of_nat b :: rat) < 50"
  show "toDouble (of_nat a / of_nat b) < 50"
  proof (cases "a = 0")
    case True
    then show ?thesis by (simp add: toDouble_def)
  next
    case False
    with assms(1) have p: "0 < (of_nat a / of_nat b :: rat)" by simp
    from l assms(1) have "a < 50 * b" 
      by (simp add: pos_divide_less_eq)
    then have "a + 1 \<le> 50 * b" by simp
    then have "(of_nat (a + 1) :: rat) \<le> of_nat (50 * b)" by (simp only: of_nat_le_iff)
    then have "(of_nat a / of_nat b :: rat) \<le> 50 - 1 / of_nat b"
      using assms(1) by (simp add: field_simps)
    moreover have "pow2 (- 48) < 1 / (of_nat b :: rat)"
    proof -
      from assms(2) have "(of_nat b :: rat) < of_nat (2 ^ 48)" by (simp only: of_nat_less_iff)
      then have "(of_nat b :: rat) < 2 ^ 48" by simp
      then show ?thesis using assms(1) by (simp add: pow2_def field_simps)
    qed
    ultimately have "(of_nat a / of_nat b :: rat) < 50 - pow2 (- 48)" by simp
    from toDouble_less_50[OF p this] show ?thesis .
  qed
qed

subsection \<open>The extraction pipeline when no round trip fails\<close>

lemma upsertBySourceUrl_ok:
  assumes "faults st = []"
  shows "\<exists>r. upsertBySourceUrl pf now u upd cre st =
     (Inr r, st\<lparr>nextId := upsertedId u (nextId st) (documents st),
                 documents := upserted pf now u upd cre (nextId st) (documents st)\<rparr>)"
proof (cases "find (\<lambda>d. e_sourceUrl d = u) (documents st)")
  case None
  then show ?thesis
    using assms
    by (simp add: upsertBySourceUrl_def bind_def findBySourceUrl_ok create_ok return_def
        upserted_def upsertedId_def)
next
  case (Some ex)
  then have "\<exists>d \<in> set (documents st). e_id d = e_id ex"
    by (auto dest: find_SomeD)
  from update_ok[OF assms this] Some show ?thesis
    using assms
    by (simp add: upsertBySourceUrl_def bind_def findBySourceUrl_ok upserted_def upsertedId_def)
qed

lemma writeFields_sourceUrl:
  "p_sourceUrl data = None \<Longrightarrow> e_sourceUrl (writeFields now data terms d) = e_sourceUrl d"
  by (simp add: writeFields_def applyFields_def)

lemma writeFields_id: "e_id (writeFields now data terms d) = e_id d"
  by (simp add: writeFields_def applyFields_def)

lemma updated_ids: "map e_id (updated pf now i data docs) = map e_id docs"
  by (simp add: updated_def writeFields_id)

lemma find_updated:
  assumes "p_sourceUrl data = None"
  shows "find (\<lambda>d. e_sourceUrl d = u) (updated pf now i data docs) =
     map_option (\<lambda>d. if e_id d = i then writeFields now data (rebuiltTerms pf i data docs) d else d)
       (find (\<lambda>d. e_sourceUrl d = u) docs)"
  unfolding updated_def
  by (rule find_map_invariant) (simp add: writeFields_sourceUrl[OF assms])

lemma find_upserted:
  assumes "p_sourceUrl upd = None" "p_sourceUrl cre = Some u"
  shows "find (\<lambda>d. e_sourceUrl d = u) (upserted pf now u upd cre i docs) =
     Some (case find (\<lambda>d. e_sourceUrl d = u) docs of
             Some ex \<Rightarrow> writeFields now upd (rebuiltTerms pf (e_id ex) upd docs) ex
           | None \<Rightarrow> newDocument pf now i cre)"
proof (cases "find (\<lambda>d. e_sourceUrl d = u) docs")
  case None
  then show ?thesis
    using assms(2) by (simp add: upserted_def find_append_case newDocument_def)
next
  case (Some ex)
  then show ?thesis
    by (simp add: upserted_def find_updated[OF assms(1)])
qed

lemma marked_faults: "faults (marked pf now u t st) = faults st"
  by (simp add: marked_def)

lemma processBody_fetch_failed:
  assumes "faults st = []"
      and "fetchFor pf u (find (\<lambda>d. e_sourceUrl d = u) (documents st)) = Inl e"
  shows "processBody pf now u t st = (Inl e, marked pf now u t st)"
proof -
  obtain r where "upsertBySourceUrl pf now u markProcessing (newProcessing u t) st =
     (Inr r, marked pf now u t st)"
    using upsertBySourceUrl_ok[OF assms(1)] unfolding marked_def by blast
  then show ?thesis
    using assms by (simp add: processBody_def bind_def findBySourceUrl_ok liftOutcome_def fetchFor_def)
qed

lemma marked_upsert:
  assumes "faults st = []"
  shows "\<exists>r. upsertBySourceUrl pf now u markProcessing (newProcessing u t) st =
     (Inr r, marked pf now u t st)"
  using upsertBySourceUrl_ok[OF assms] unfolding marked_def by blast

lemma marked_find:
  "\<exists>d. find (\<lambda>d. e_sourceUrl d = u) (documents (marked pf now u t st)) = Some d"
  by (simp add: marked_def find_upserted markProcessing_def newProcessing_def noFields_def)

lemma marked_ids:
  assumes "ex \<in> set (documents st)"
  shows "\<exists>d \<in> set (documents (marked pf now u t st)). e_id d = e_id ex"
proof -
  have "e_id ex \<in> set (map e_id (documents st))"
    using assms by simp
  then have "e_id ex \<in> set (map e_id (documents (marked pf now u t st)))"
    by (cases "find (\<lambda>d. e_sourceUrl d = u) (documents st)")
       (simp_all add: marked_def upserted_def updated_ids del: set_map)
  then show ?thesis by auto
qed

lemma processBody_not_modified:
  assumes "faults st = []"
      and "fetchFor pf u (find (\<lambda>d. e_sourceUrl d = u) (documents st)) = Inr None"
  shows "\<exists>d. find (\<lambda>d. e_sourceUrl d = u) (documents (marked pf now u t st)) = Some d \<and>
     processBody pf now u t st =
       (Inr (),
        (marked pf now u t st)
          \<lparr>documents :=
             updated pf now (e_id d)
               (notModifiedFields now (find (\<lambda>d. e_sourceUrl d = u) (documents st)))
               (documents (marked pf now u t st))\<rparr>)"
proof -
  obtain r where r: "upsertBySourceUrl pf now u markProcessing (newProcessing u t) st =
     (Inr r, marked pf now u t st)"
    using marked_upsert[OF assms(1)] by blast
  obtain d where d: "find (\<lambda>d. e_sourceUrl d = u) (documents (marked pf now u t st)) = Some d"
    using marked_find by blast
  have f: "faults (marked pf now u t st) = []"
    using assms(1) by (simp add: marked_faults)
  have "\<exists>d' \<in> set (documents (marked pf now u t st)). e_id d' = e_id d"
    using d by (auto dest: find_SomeD)
  note upd = update_ok[OF f this]
  show ?thesis
    using assms r d f
    by (simp add: processBody_def bind_def findBySourceUrl_ok liftOutcome_def fetchFor_def
        upd return_def)
qed

lemma processBody_unchanged:
  assumes "faults st = []"
      and "find (\<lambda>d. e_sourceUrl d = u) (documents st) = Some ex"
      and "fetchFor pf u (Some ex) = Inr (Some fetched)"
      and "hashMatch (hashBuffer pf (f_buffer fetched)) (Some ex) = Some ex'"
  shows "processBody pf now u t st =
       (Inr (),
        (marked pf now u t st)
          \<lparr>documents :=
             updated pf now (e_id ex) (unchangedFields now fetched ex)
               (documents (marked pf now u t st))\<rparr>)"
proof -
  obtain r where r: "upsertBySourceUrl pf now u markProcessing (newProcessing u t) st =
     (Inr r, marked pf now u t st)"
    using marked_upsert[OF assms(1)] by blast
  have f: "faults (marked pf now u t st) = []"
    using assms(1) by (simp add: marked_faults)
  have ex': "ex' = ex"
    using assms(4) by (simp add: hashMatch_def split: if_splits)
  have "ex \<in> set (documents st)"
    using assms(2) by (auto dest: find_SomeD)
  note upd = update_ok[OF f marked_ids[OF this]]
  show ?thesis
    using assms r f
    by (simp add: processBody_def bind_def findBySourceUrl_ok liftOutcome_def fetchFor_def
        upd return_def ex')
qed

lemma processBody_extract_failed:
  assumes "faults st = []"
      and "fetchFor pf u (find (\<lambda>d. e_sourceUrl d = u) (documents st)) = Inr (Some fetched)"
      and "hashMatch (hashBuffer pf (f_buffer fetched))
             (find (\<lambda>d. e_sourceUrl d = u) (documents st)) = None"
      and "extractText pf u t fetched = Inl e"
  shows "processBody pf now u t st = (Inl e, marked pf now u t st)"
proof -
  obtain r where r: "upsertBySourceUrl pf now u markProcessing (newProcessing u t) st =
     (Inr r, marked pf now u t st)"
    using marked_upsert[OF assms(1)] by blast
  show ?thesis
    using assms r
    by (simp add: processBody_def bind_def findBySourceUrl_ok liftOutcome_def fetchFor_def)
qed

lemma processBody_extracted:
  assumes "faults st = []"
      and "fetchFor pf u (find (\<lambda>d. e_sourceUrl d = u) (documents st)) = Inr (Some fetched)"
      and "hashMatch (hashBuffer pf (f_buffer fetched))
             (find (\<lambda>d. e_sourceUrl d = u) (documents st)) = None"
      and "extractText pf u t fetched = Inr x"
  shows "\<exists>d. find (\<lambda>d. e_sourceUrl d = u) (documents (marked pf now u t st)) = Some d \<and>
     processBody pf now u t st =
       (Inr (),
        (marked pf now u t st)
          \<lparr>documents :=
             updated pf now (e_id d) (extractionFields pf now u fetched x)
               (documents (marked pf now u t st))\<rparr>)"
proof -
  obtain r where r: "upsertBySourceUrl pf now u markProcessing (newProcessing u t) st =
     (Inr r, marked pf now u t st)"
    using marked_upsert[OF assms(1)] by blast
  obtain d where d: "find (\<lambda>d. e_sourceUrl d = u) (documents (marked pf now u t st)) = Some d"
    using marked_find by blast
  have f: "faults (marked pf now u t st) = []"
    using assms(1) by (simp add: marked_faults)
  have "\<exists>d' \<in> set (documents (marked pf now u t st)). e_id d' = e_id d"
    using d by (auto dest: find_SomeD)
  note upd = update_ok[OF f this]
  show ?thesis
    using assms r d f
    by (simp add: processBody_def bind_def findBySourceUrl_ok liftOutcome_def fetchFor_def
        upd return_def)
qed

lemma recorded_error:
  assumes "faults st = []"
  shows "\<exists>st' d. bind (upsertBySourceUrl pf now u markError (newError u t)) (\<lambda>_. return ()) st
            = (Inr (), st') \<and> faults st' = [] \<and>
          find (\<lambda>d. e_sourceUrl d = u) (documents st') = Some d \<and> e_status d = ''error''"
proof -
  obtain r where r: "upsertBySourceUrl pf now u markError (newError u t) st =
     (Inr r, st\<lparr>nextId := upsertedId u (nextId st) (documents st),
                 documents := upserted pf now u markError (newError u t) (nextId st) (documents st)\<rparr>)"
    using upsertBySourceUrl_ok[OF assms] by blast
  have s: "p_sourceUrl markError = None" "p_sourceUrl (newError u t) = Some u"
    by (simp_all add: markError_def newError_def noFields_def)
  have "e_status (case find (\<lambda>d. e_sourceUrl d = u) (documents st) of
             Some ex \<Rightarrow> writeFields now markError (rebuiltTerms pf (e_id ex) markError (documents st)) ex
           | None \<Rightarrow> newDocument pf now (nextId st) (newError u t)) = ''error''"
    by (simp add: markError_def newError_def noFields_def writeFields_def applyFields_def
        newDocument_def orElse_def split: option.splits)
  then show ?thesis
    using r assms by (simp add: bind_def return_def find_upserted[OF s])
qed

lemma find_updated_self:
  assumes "p_sourceUrl data = None" "find (\<lambda>d. e_sourceUrl d = u) docs = Some d"
  shows "find (\<lambda>d. e_sourceUrl d = u) (updated pf now (e_id d) data docs) =
         Some (writeFields now data (rebuiltTerms pf (e_id d) data docs) d)"
  using assms(2) by (simp add: find_updated[OF assms(1)])

lemma extractionFields_sourceUrl: "p_sourceUrl (extractionFields pf now u fetched x) = None"
  by (simp add: extractionFields_def noFields_def Let_def)

lemma processEpsteinDocument_extracted:
  assumes "faults st = []"
      and "fetchFor pf u (find (\<lambda>d. e_sourceUrl d = u) (documents st)) = Inr (Some fetched)"
      and "hashMatch (hashBuffer pf (f_buffer fetched))
             (find (\<lambda>d. e_sourceUrl d = u) (documents st)) = None"
      and "extractText pf u t fetched = Inr x"
  shows "\<exists>st' d terms.
     processEpsteinDocument pf now u t st = (Inr (), st') \<and> faults st' = [] \<and>
     find (\<lambda>d. e_sourceUrl d = u) (documents st') =
       Some (writeFields now (extractionFields pf now u fetched x) terms d)"
proof -
  from processBody_extracted[OF assms, of now]
  obtain d where d: "find (\<lambda>d. e_sourceUrl d = u) (documents (marked pf now u t st)) = Some d"
    and b: "processBody pf now u t st =
       (Inr (),
        (marked pf now u t st)
          \<lparr>documents :=
             updated pf now (e_id d) (extractionFields pf now u fetched x)
               (documents (marked pf now u t st))\<rparr>)"
    by blast
  show ?thesis
    using assms(1)
    by (simp add: processEpsteinDocument_def catch_def b marked_faults
        find_updated_self[OF extractionFields_sourceUrl d]) blast
qed

lemma extracted_status:
  "e_status (writeFields now (extractionFields pf now' u fetched x) terms d) =
     finalStatus (needsOcr (computeQuality (x_rawText x) (x_pageCount x) (x_fileType x)))
       (x_rawText x)"
  "e_ocrRequired (writeFields now (extractionFields pf now' u fetched x) terms d) =
     needsOcr (computeQuality (x_rawText x) (x_pageCount x) (x_fileType x))"
  "e_extractionQuality (writeFields now (extractionFields pf now' u fetched x) terms d) =
     Some (quality (computeQuality (x_rawText x) (x_pageCount x) (x_fileType x)))"
  by (simp_all add: writeFields_def applyFields_def extractionFields_def noFields_def Let_def)

lemma processEpsteinDocument_ok:
  assumes "faults st = []"
  shows "\<exists>st'. processEpsteinDocument pf now u t st = (Inr (), st') \<and> faults st' = [] \<and>
     (itemFailed pf u t (find (\<lambda>d. e_sourceUrl d = u) (documents st)) \<longrightarrow>
        recordedStatus u st' = Some ''error'')"
proof -
  let ?existing = "find (\<lambda>d. e_sourceUrl d = u) (documents st)"
  have f: "faults (marked pf now u t st) = []"
    using assms by (simp add: marked_faults)
  have caught: "\<exists>st'. processEpsteinDocument pf now u t st = (Inr (), st') \<and> faults st' = [] \<and>
       recordedStatus u st' = Some ''error''"
    if "processBody pf now u t st = (Inl e, marked pf now u t st)" for e
    using recorded_error[OF f, of pf now u t] that
    by (auto simp: processEpsteinDocument_def catch_def recordedStatus_def)
  show ?thesis
  proof (cases "fetchFor pf u ?existing")
    case (Inl e)
    from caught[OF processBody_fetch_failed[OF assms Inl]] show ?thesis by blast
  next
    case (Inr fetchResult)
    show ?thesis
    proof (cases fetchResult)
      case None
      with Inr have n: "fetchFor pf u ?existing = Inr None" by simp
      from processBody_not_modified[OF assms n, of now t] show ?thesis
        using assms n
        by (auto simp: processEpsteinDocument_def catch_def marked_faults itemFailed_def)
    next
      case (Some fetched)
      with Inr have s: "fetchFor pf u ?existing = Inr (Some fetched)" by simp
      show ?thesis
      proof (cases "hashMatch (hashBuffer pf (f_buffer fetched)) ?existing")
        case (Some ex')
        then obtain ex where ex: "?existing = Some ex"
          by (cases ?existing) (simp_all add: hashMatch_def)
        from processBody_unchanged[OF assms ex s[unfolded ex] Some[unfolded ex], of now t]
        show ?thesis
          using assms s Some
          by (simp add: processEpsteinDocument_def catch_def marked_faults itemFailed_def)
      next
        case None
        show ?thesis
        proof (cases "extractText pf u t fetched")
          case (Inl e)
          from caught[OF processBody_extract_failed[OF assms s None Inl]] show ?thesis by blast
        next
          case (Inr x)
          from processEpsteinDocument_extracted[OF assms s None Inr, of now]
          obtain st' d terms where r: "processEpsteinDocument pf now u t st = (Inr (), st')"
            "faults st' = []"
            "find (\<lambda>d. e_sourceUrl d = u) (documents st') =
               Some (writeFields now (extractionFields pf now u fetched x) terms d)"
            by blast
          have "recordedStatus u st' = Some ''error''"
            if "str_includes (f_contentType fetched) ''pdf'' \<or> endsWith (toLowerCase u) ''.pdf''"
               "pdfGetText pf (f_buffer fetched) = None"
          proof -
            from that Inr have "x = \<lparr>x_rawText = [], x_pageCount = 0, x_extractedTitle = t,
                      x_fileType = ''pdf''\<rparr>"
              by (simp add: extractText_def extractPdfText_def Let_def)
            then show ?thesis
              by (simp add: recordedStatus_def r(3) extracted_status computeQuality_def
                  finalStatus_def)
          qed
          then show ?thesis
            using r(1,2) s None Inr by (auto simp: itemFailed_def)
        qed
      qed
    qed
  qed
qed

lemma processLoop_ok:
  "faults st = [] \<Longrightarrow>
   \<exists>st'. processLoop pf now pending res st =
           (Inr (res\<lparr>processed := processed res + length pending\<rparr>), st') \<and> faults st' = []"
proof (induction pending arbitrary: res st)
  case Nil
  then show ?case by (simp add: return_def)
next
  case (Cons doc pending)
  from processEpsteinDocument_ok[OF Cons.prems, of pf now "e_sourceUrl doc" "e_title doc"]
  obtain st1 where 1: "processEpsteinDocument pf now (e_sourceUrl doc) (e_title doc) st = (Inr (), st1)"
    "faults st1 = []"
    by blast
  from Cons.IH[OF 1(2), of "res\<lparr>processed := processed res + 1\<rparr>"]
  show ?case by (simp add: 1(1))
qed

lemma processAllPending_ok:
  assumes "faults st = []"
  shows "\<exists>st'. processAllPending pf now maxDocuments st =
     (Inr \<lparr>processed = length (pendingDocuments maxDocuments (documents st)), batchErrors = 0\<rparr>, st')"
proof -
  have "findManyByStatus [''pending'', ''needs_ocr'']
          (case maxDocuments of Some n \<Rightarrow> n | None \<Rightarrow> 500) st =
        (Inr (pendingDocuments maxDocuments (documents st)), st)"
    using assms
    by (simp add: findManyByStatus_def bind_def roundTrip_ok pendingDocuments_def
        split: option.splits)
  moreover from processLoop_ok[OF assms, of pf now "pendingDocuments maxDocuments (documents st)"
      "\<lparr>processed = 0, batchErrors = 0\<rparr>"]
  obtain st' where "processLoop pf now (pendingDocuments maxDocuments (documents st))
      \<lparr>processed = 0, batchErrors = 0\<rparr> st =
      (Inr \<lparr>processed = length (pendingDocuments maxDocuments (documents st)), batchErrors = 0\<rparr>, st')"
    by auto
  ultimately show ?thesis
    by (simp add: processAllPending_def bind_def)
qed

text \<open>
  Claim C9. When no round trip fails, \<^verbatim>\<open>processEpsteinDocument\<close> returns normally
  whatever the fetch and the parsers do, and after a per-item failure the record of
  the URL, created if there was none, has status \<^verbatim>\<open>error\<close>: what the fetch or the HTML
  extraction throws is caught by the \<^verbatim>\<open>catch\<close> block, and a failure of the PDF parser,
  which \<^verbatim>\<open>extractPdfText\<close> absorbs, leaves no text and no pages and so reaches the same
  status. Then \<^verbatim>\<open>processAllPending\<close> counts every pending document as processed and
  none as an error.
\<close>

theorem item_failures_do_not_propagate:
  assumes "faults st = []"
  shows "(\<exists>st'. processEpsteinDocument pf now u t st = (Inr (), st') \<and>
            (itemFailed pf u t (find (\<lambda>d. e_sourceUrl d = u) (documents st)) \<longrightarrow>
               recordedStatus u st' = Some ''error'')) \<and>
         (\<exists>st'. processAllPending pf now maxDocuments st =
            (Inr \<lparr>processed = length (pendingDocuments maxDocuments (documents st)),
                  batchErrors = 0\<rparr>, st'))"
proof
  from processEpsteinDocument_ok[OF assms, of pf now u t]
  show "\<exists>st'. processEpsteinDocument pf now u t st = (Inr (), st') \<and>
            (itemFailed pf u t (find (\<lambda>d. e_sourceUrl d = u) (documents st)) \<longrightarrow>
               recordedStatus u st' = Some ''error'')"
    by blast
  from processAllPending_ok[OF assms]
  show "\<exists>st'. processAllPending pf now maxDocuments st =
            (Inr \<lparr>processed = length (pendingDocuments maxDocuments (documents st)),
                  batchErrors = 0\<rparr>, st')" .
qed

theorem item_failures_do_not_propagate_witness:
  "(\<exists>st'. processEpsteinDocument throttlingServer 2000 ''https://www.justice.gov/epstein/a.pdf''
            ''A'' exampleCatalog = (Inr (), st') \<and>
          recordedStatus ''https://www.justice.gov/epstein/a.pdf'' st' = Some ''error'') \<and>
   (\<exists>st'. processAllPending throttlingServer 2000 None exampleCatalog =
            (Inr \<lparr>processed = 1, batchErrors = 0\<rparr>, st'))"
proof -
  have h: "faults exampleCatalog = []"
    by (simp add: exampleCatalog_def)
  have f: "itemFailed throttlingServer ''https://www.justice.gov/epstein/a.pdf'' ''A''
             (find (\<lambda>d. e_sourceUrl d = ''https://www.justice.gov/epstein/a.pdf'')
                (documents exampleCatalog))"
    by (simp add: itemFailed_def fetchFor_def fetchWithConditional_def throttlingServer_def
        examplePlatform_def)
  have p: "length (pendingDocuments None (documents exampleCatalog)) = 1"
    by (simp add: pendingDocuments_def exampleCatalog_def exampleDocument_def)
  from item_failures_do_not_propagate[OF h, of throttlingServer 2000
      "''https://www.justice.gov/epstein/a.pdf''" "''A''" None]
  show ?thesis
    using f by (simp add: p)
qed

subsection \<open>The final status\<close>

lemma computeQuality_table:
  assumes "x_pageCount x < 2 ^ 48"
  shows "needsOcr (computeQuality (x_rawText x) (x_pageCount x) (x_fileType x)) = lowQualityPdf x"
    and "quality (computeQuality (x_rawText x) (x_pageCount x) (x_fileType x)) =
           (if x_fileType x = ''pdf'' \<and> 0 < x_pageCount x then roundedScore x
            else if x_rawText x \<noteq> [] then 100 else 0)"
proof -
  have "toDouble (of_nat (length (x_rawText x)) / of_nat (x_pageCount x)) < 50 \<longleftrightarrow>
        (of_nat (length (x_rawText x)) / of_nat (x_pageCount x) :: rat) < 50"
    if "0 < x_pageCount x"
    using that assms by (rule toDouble_below_threshold)
  then show "needsOcr (computeQuality (x_rawText x) (x_pageCount x) (x_fileType x)) =
             lowQualityPdf x"
    by (auto simp: computeQuality_def lowQualityPdf_def charsPerPage_def Let_def
        MIN_QUALITY_THRESHOLD_def)
  show "quality (computeQuality (x_rawText x) (x_pageCount x) (x_fileType x)) =
           (if x_fileType x = ''pdf'' \<and> 0 < x_pageCount x then roundedScore x
            else if x_rawText x \<noteq> [] then 100 else 0)"
    by (auto simp: computeQuality_def roundedScore_def charsPerPage_def Let_def)
qed

text \<open>
  Claim C4, amended. When no round trip fails, the fetch returns fresh bytes, they are
  not skipped as unchanged and the extraction returns \<open>x\<close>, of a length and a page count
  that are doubles and leave the threshold test exact, \<^verbatim>\<open>processEpsteinDocument\<close>
  returns and the record of the URL has: status \<^verbatim>\<open>needs_ocr\<close> exactly when \<open>x\<close> is a
  PDF with pages whose characters per page are below 50, else \<^verbatim>\<open>indexed\<close> exactly when
  the text has more than 50 characters, else \<^verbatim>\<open>error\<close>; \<^verbatim>\<open>ocrRequired\<close> set exactly in
  the first case; and as quality, for a PDF with pages, the characters per page rounded
  to two decimals the way the code computes it in double arithmetic,
  \<^verbatim>\<open>Math.round(charsPerPage * 100) / 100\<close>, and 100 or 0 (some text or none) otherwise.
\<close>

theorem final_status_decision_table:
  assumes "faults st = []"
      and "fetchFor pf u (find (\<lambda>d. e_sourceUrl d = u) (documents st)) = Inr (Some fetched)"
      and "hashMatch (hashBuffer pf (f_buffer fetched))
             (find (\<lambda>d. e_sourceUrl d = u) (documents st)) = None"
      and "extractText pf u t fetched = Inr x"
      and "length (x_rawText x) < 2 ^ 53" and "x_pageCount x < 2 ^ 48"
  shows "\<exists>st' d.
     processEpsteinDocument pf now u t st = (Inr (), st') \<and>
     find (\<lambda>d. e_sourceUrl d = u) (documents st') = Some d \<and>
     e_status d =
       (if lowQualityPdf x then ''needs_ocr''
        else if 50 < length (x_rawText x) then ''indexed''
        else ''error'') \<and>
     e_ocrRequired d = lowQualityPdf x \<and>
     e_extractionQuality d =
       Some (if x_fileType x = ''pdf'' \<and> 0 < x_pageCount x then roundedScore x
             else if x_rawText x \<noteq> [] then 100 else 0)"
proof -
  from processEpsteinDocument_extracted[OF assms(1-4), of now]
  obtain st' d terms where r: "processEpsteinDocument pf now u t st = (Inr (), st')"
    "find (\<lambda>d. e_sourceUrl d = u) (documents st') =
       Some (writeFields now (extractionFields pf now u fetched x) terms d)"
    by blast
  let ?d = "writeFields now (extractionFields pf now u fetched x) terms d"
  note table = computeQuality_table[OF assms(6)]
  have "e_status ?d =
       (if lowQualityPdf x then ''needs_ocr''
        else if 50 < length (x_rawText x) then ''indexed''
        else ''error'')"
    by (auto simp: extracted_status table finalStatus_def)
  moreover have "e_ocrRequired ?d = lowQualityPdf x"
    by (simp add: extracted_status table)
  moreover have "e_extractionQuality ?d =
       Some (if x_fileType x = ''pdf'' \<and> 0 < x_pageCount x then roundedScore x
             else if x_rawText x \<noteq> [] then 100 else 0)"
    by (simp only: extracted_status table)
  ultimately show ?thesis using r by blast
qed

text \<open>
  The claim as stated, that the quality of such a PDF is its characters per page,
  fails: 23 characters on 40 pages score 0.57, the double nearest to it, which is
  neither the ratio 23/40 nor the double nearest to that.
\<close>

theorem quality_score_counterexample:
  "quality (computeQuality (replicate 23 CHR ''a'') 40 ''pdf'') = toDouble (57 / 100) \<and>
   quality (computeQuality (replicate 23 CHR ''a'') 40 ''pdf'') \<noteq>
     of_nat (length (replicate 23 CHR ''a'')) / of_nat 40 \<and>
   quality (computeQuality (replicate 23 CHR ''a'') 40 ''pdf'') \<noteq>
     toDouble (of_nat (length (replicate 23 CHR ''a'')) / of_nat 40)"
proof -
  have m: "Math_round (toDouble (toDouble (23 / 40) * 100)) = 57"
    by code_simp
  have q: "quality (computeQuality (replicate 23 CHR ''a'') 40 ''pdf'') = toDouble (57 / 100)"
    by (simp add: computeQuality_def Let_def m)
  have "toDouble (57 / 100) \<noteq> 23 / 40" "toDouble (57 / 100) \<noteq> toDouble (23 / 40)"
    by code_simp+
  then show ?thesis by (simp add: q)
qed

theorem final_status_decision_table_witness:
  "\<exists>st' d.
     processEpsteinDocument scanServer 2000 ''https://www.justice.gov/epstein/scan'' ''Scan''
       emptyCatalog = (Inr (), st') \<and>
     find (\<lambda>d. e_sourceUrl d = ''https://www.justice.gov/epstein/scan'') (documents st') = Some d \<and>
     e_status d = ''needs_ocr'' \<and> e_ocrRequired d \<and>
     e_extractionQuality d = Some (toDouble (1333 / 100))"
proof -
  let ?fetched = "\<lparr>f_buffer = ''SCAN'', f_contentType = ''application/pdf'',
                   f_etag = Some ''v1'', f_lastModified = None, f_statusCode = 200\<rparr>"
  let ?x = "\<lparr>x_rawText = replicate 40 CHR ''a'', x_pageCount = 3, x_extractedTitle = ''Scan'',
             x_fileType = ''pdf''\<rparr>"
  have h1: "faults emptyCatalog = []" by (simp add: emptyCatalog_def)
  have h2: "fetchFor scanServer ''https://www.justice.gov/epstein/scan''
              (find (\<lambda>d. e_sourceUrl d = ''https://www.justice.gov/epstein/scan'')
                 (documents emptyCatalog)) = Inr (Some ?fetched)"
    by (simp add: emptyCatalog_def fetchFor_def fetchWithConditional_def scanServer_def
        examplePlatform_def truthy_def orElse_def)
  have h3: "hashMatch (hashBuffer scanServer (f_buffer ?fetched))
              (find (\<lambda>d. e_sourceUrl d = ''https://www.justice.gov/epstein/scan'')
                 (documents emptyCatalog)) = None"
    by (simp add: emptyCatalog_def hashMatch_def)
  have h4: "extractText scanServer ''https://www.justice.gov/epstein/scan'' ''Scan'' ?fetched =
              Inr ?x"
    by (simp add: extractText_def Let_def extractPdfText_def scanServer_def
        examplePlatform_def startsWith_def)
  have h5: "length (x_rawText ?x) < 2 ^ 53" by simp
  have h6: "x_pageCount ?x < 2 ^ 48" by simp
  have c: "charsPerPage ?x = 40 / 3" by (simp add: charsPerPage_def)
  have l: "lowQualityPdf ?x" by (simp add: lowQualityPdf_def c)
  have m: "Math_round (toDouble (toDouble (40 / 3) * 100)) = 1333"
    by code_simp
  have s: "roundedScore ?x = toDouble (1333 / 100)"
    by (simp add: roundedScore_def c m)
  from final_status_decision_table[OF h1 h2 h3 h4 h5 h6, of 2000]
  show ?thesis by (simp add: l s)
qed

subsection \<open>Unchanged content\<close>

lemma rebuiltTerms_plain:
  "p_rawText data = None \<Longrightarrow> p_title data = None \<Longrightarrow> p_summary data = None \<Longrightarrow>
   rebuiltTerms pf i data docs = None"
  by (simp add: rebuiltTerms_def)

lemma refetched_writes:
  assumes "e_status ex = ''indexed''"
  shows "writeFields now (unchangedFields now fetched ex) None
           (writeFields now markProcessing None ex) = refetched now fetched ex"
proof -
  let ?r = "refetched now fetched ex"
  have a: "writeFields now (unchangedFields now fetched ex) None
             (writeFields now markProcessing None ex) = ?r\<lparr>e_status := ''indexed''\<rparr>"
    by (simp add: writeFields_def applyFields_def unchangedFields_def markProcessing_def
        noFields_def refetched_def)
  have b: "e_status ?r = ''indexed''"
    using assms by (simp add: refetched_def)
  have "?r\<lparr>e_status := ''indexed''\<rparr> = ?r\<lparr>e_status := e_status ?r\<rparr>"
    by (simp only: b)
  also have "\<dots> = ?r" by simp
  finally show ?thesis using a by simp
qed

lemma updated_plain:
  assumes "p_rawText data = None" "p_title data = None" "p_summary data = None"
  shows "updated pf now i data docs =
         map (\<lambda>d. if e_id d = i then writeFields now data None d else d) docs"
  by (simp add: updated_def rebuiltTerms_plain[OF assms])

lemma unchanged_documents:
  assumes "distinct (map e_id docs)" "ex \<in> set docs" "e_status ex = ''indexed''"
  shows "updated pf now (e_id ex) (unchangedFields now fetched ex)
           (updated pf now (e_id ex) markProcessing docs) =
         map (\<lambda>d. if d = ex then refetched now fetched ex else d) docs"
proof -
  have 1: "updated pf now (e_id ex) markProcessing docs =
           map (\<lambda>d. if e_id d = e_id ex then writeFields now markProcessing None d else d) docs"
    by (rule updated_plain) (simp_all add: markProcessing_def noFields_def)
  have 2: "updated pf now (e_id ex) (unchangedFields now fetched ex) docs' =
           map (\<lambda>d. if e_id d = e_id ex
                     then writeFields now (unchangedFields now fetched ex) None d else d) docs'"
    for docs'
    by (rule updated_plain) (simp_all add: unchangedFields_def noFields_def)
  have "(if e_id (if e_id d = e_id ex then writeFields now markProcessing None d else d) = e_id ex
         then writeFields now (unchangedFields now fetched ex) None
                (if e_id d = e_id ex then writeFields now markProcessing None d else d)
         else (if e_id d = e_id ex then writeFields now markProcessing None d else d)) =
        (if d = ex then refetched now fetched ex else d)" if "d \<in> set docs" for d
    using distinct_id_eq[OF assms(1,2) that] refetched_writes[OF assms(3)]
    by (simp add: writeFields_id)
  then show ?thesis
    unfolding 1 2 map_map comp_def by (intro map_cong refl)
qed

lemma processEpsteinDocument_unchanged:
  assumes "faults st = []"
      and "distinct (map e_id (documents st))"
      and "find (\<lambda>d. e_sourceUrl d = u) (documents st) = Some ex"
      and "fetchFor pf u (Some ex) = Inr (Some fetched)"
      and "e_byteHash ex = Some (hashBuffer pf (f_buffer fetched))"
      and "e_status ex = ''indexed''"
  shows "processEpsteinDocument pf now u t st =
     (Inr (),
      st\<lparr>documents := map (\<lambda>d. if d = ex then refetched now fetched ex else d) (documents st)\<rparr>)"
proof -
  have h: "hashMatch (hashBuffer pf (f_buffer fetched)) (Some ex) = Some ex"
    using assms(5,6) by (simp add: hashMatch_def)
  have m: "marked pf now u t st =
           st\<lparr>documents := updated pf now (e_id ex) markProcessing (documents st)\<rparr>"
    using assms(3) by (simp add: marked_def upserted_def upsertedId_def)
  have "ex \<in> set (documents st)"
    using assms(3) by (auto dest: find_SomeD)
  from unchanged_documents[OF assms(2) this assms(6)]
       processBody_unchanged[OF assms(1,3,4) h, of now t]
  show ?thesis
    by (simp add: processEpsteinDocument_def catch_def m)
qed

lemma example_refetch:
  "fetchFor scanServer ''https://www.justice.gov/epstein/a.pdf'' (Some indexedDocument) =
     Inr (Some \<lparr>f_buffer = ''SCAN'', f_contentType = ''application/pdf'',
                 f_etag = Some ''v1'', f_lastModified = None, f_statusCode = 200\<rparr>)"
  by (simp add: fetchFor_def fetchWithConditional_def scanServer_def
      examplePlatform_def truthy_def orElse_def)

lemma example_indexed:
  "faults indexedCatalog = []"
  "distinct (map e_id (documents indexedCatalog))"
  "find (\<lambda>d. e_sourceUrl d = ''https://www.justice.gov/epstein/a.pdf'') (documents indexedCatalog) =
     Some indexedDocument"
  "e_byteHash indexedDocument =
     Some (hashBuffer scanServer
       (f_buffer \<lparr>f_buffer = ''SCAN'', f_contentType = ''application/pdf'',
                  f_etag = Some ''v1'', f_lastModified = None, f_statusCode = 200\<rparr>))"
  "e_status indexedDocument = ''indexed''"
  by (simp_all add: indexedCatalog_def indexedDocument_def exampleDocument_def scanServer_def
      examplePlatform_def)

lemma example_refetched:
  "refetched 2000 \<lparr>f_buffer = ''SCAN'', f_contentType = ''application/pdf'',
                  f_etag = Some ''v1'', f_lastModified = None, f_statusCode = 200\<rparr>
     indexedDocument =
   indexedDocument\<lparr>e_httpEtag := Some ''v1'', e_lastFetchedAt := Some 2000, e_updatedAt := 2000\<rparr>"
  by (simp add: refetched_def truthy_def)

lemma onlyFetchMetadataWritten_updatedAt:
  assumes "onlyFetchMetadataWritten a b"
  shows "e_updatedAt b = e_updatedAt a"
proof -
  from assms have "b = a\<lparr>e_status := e_status b, e_lastFetchedAt := e_lastFetchedAt b,
             e_httpEtag := e_httpEtag b, e_httpLastModified := e_httpLastModified b\<rparr>"
    by (simp add: onlyFetchMetadataWritten_def)
  then have "e_updatedAt b = e_updatedAt (a\<lparr>e_status := e_status b, e_lastFetchedAt := e_lastFetchedAt b,
             e_httpEtag := e_httpEtag b, e_httpLastModified := e_httpLastModified b\<rparr>)"
    by (rule arg_cong)
  also have "\<dots> = e_updatedAt a" by simp
  finally show ?thesis .
qed

text \<open>
  Claim C8, amended. When no round trip fails, document ids are distinct, the fetch
  returns bytes whose hash is the \<^verbatim>\<open>byteHash\<close> of the record of the URL and that record
  is \<^verbatim>\<open>indexed\<close>, \<^verbatim>\<open>processEpsteinDocument\<close> returns and leaves the catalog as it was
  but for that record, of which \<^verbatim>\<open>lastFetchedAt\<close>, \<^verbatim>\<open>httpEtag\<close>, \<^verbatim>\<open>httpLastModified\<close> and
  \<^verbatim>\<open>updatedAt\<close> are written; its status is \<^verbatim>\<open>indexed\<close> as before, and neither parser
  has a part in the outcome.
\<close>

theorem unchanged_content_frame:
  assumes "faults st = []"
      and "distinct (map e_id (documents st))"
      and "find (\<lambda>d. e_sourceUrl d = u) (documents st) = Some ex"
      and "fetchFor pf u (Some ex) = Inr (Some fetched)"
      and "e_byteHash ex = Some (hashBuffer pf (f_buffer fetched))"
      and "e_status ex = ''indexed''"
  shows "processEpsteinDocument pf now u t st =
     (Inr (),
      st\<lparr>documents := map (\<lambda>d. if d = ex then refetched now fetched ex else d) (documents st)\<rparr>)"
  using assms by (rule processEpsteinDocument_unchanged)

text \<open>
  The claim as stated, that only \<^verbatim>\<open>status\<close>, \<^verbatim>\<open>lastFetchedAt\<close>, \<^verbatim>\<open>httpEtag\<close> and
  \<^verbatim>\<open>httpLastModified\<close> are written, fails: the \<^verbatim>\<open>update\<close> of the store stamps
  \<^verbatim>\<open>updatedAt\<close>. A document last updated at instant 1000 and fetched unchanged at
  instant 2000 has \<^verbatim>\<open>updatedAt\<close> 2000.
\<close>

theorem unchanged_content_counterexample:
  "processEpsteinDocument scanServer 2000 ''https://www.justice.gov/epstein/a.pdf'' ''A''
     indexedCatalog =
     (Inr (),
      indexedCatalog
        \<lparr>documents :=
           [indexedDocument\<lparr>e_httpEtag := Some ''v1'', e_lastFetchedAt := Some 2000,
                            e_updatedAt := 2000\<rparr>]\<rparr>) \<and>
   \<not> onlyFetchMetadataWritten indexedDocument
       (indexedDocument\<lparr>e_httpEtag := Some ''v1'', e_lastFetchedAt := Some 2000,
                         e_updatedAt := 2000\<rparr>)"
proof -
  have "e_updatedAt (indexedDocument\<lparr>e_httpEtag := Some ''v1'', e_lastFetchedAt := Some 2000,
                         e_updatedAt := 2000\<rparr>) \<noteq> e_updatedAt indexedDocument"
    by (simp add: indexedDocument_def exampleDocument_def)
  then have "\<not> onlyFetchMetadataWritten indexedDocument
       (indexedDocument\<lparr>e_httpEtag := Some ''v1'', e_lastFetchedAt := Some 2000,
                         e_updatedAt := 2000\<rparr>)"
    using onlyFetchMetadataWritten_updatedAt by blast
  moreover have "documents indexedCatalog = [indexedDocument]"
    by (simp add: indexedCatalog_def)
  ultimately show ?thesis
    using processEpsteinDocument_unchanged[OF example_indexed(1,2,3) example_refetch
        example_indexed(4,5), of 2000 "''A''"]
    by (simp add: example_refetched)
qed

theorem unchanged_content_frame_witness:
  "processEpsteinDocument scanServer 2000 ''https://www.justice.gov/epstein/a.pdf'' ''A''
     indexedCatalog =
     (Inr (),
      indexedCatalog
        \<lparr>documents :=
           [refetched 2000
              \<lparr>f_buffer = ''SCAN'', f_contentType = ''application/pdf'',
               f_etag = Some ''v1'', f_lastModified = None, f_statusCode = 200\<rparr>
              indexedDocument]\<rparr>) \<and>
   e_rawText (refetched 2000
              \<lparr>f_buffer = ''SCAN'', f_contentType = ''application/pdf'',
               f_etag = Some ''v1'', f_lastModified = None, f_statusCode = 200\<rparr>
              indexedDocument) = Some ''text of the scan''"
proof -
  have "documents indexedCatalog = [indexedDocument]"
    by (simp add: indexedCatalog_def)
  then show ?thesis
    using unchanged_content_frame[OF example_indexed(1,2,3) example_refetch
        example_indexed(4,5), of 2000 "''A''"]
    by (simp add: refetched_def indexedDocument_def)
qed

subsection \<open>Normalisation\<close>



















text \<open>
  The trailing slash of the path stays when a query follows it, since the test
  \<^verbatim>\<open>result.endsWith('/')\<close> looks at the whole string; the theorem above says nothing of
  such pairs.
\<close>

lemma trailing_slash_before_query:
  "normalizeUrl ''https://example.com/a/?x=1'' = ''https://example.com/a/?x=1'' \<and>
   normalizeUrl ''https://example.com/a?x=1'' = ''https://example.com/a?x=1''"
  by code_simp

text \<open>
  Claim C3. \<^verbatim>\<open>normalizeUrl\<close> is not idempotent: of a path that ends in two slashes
  it removes one, and from its own result the other.
\<close>

theorem normalizeUrl_not_idempotent:
  "normalizeUrl ''https://example.com/a//'' = ''https://example.com/a/'' \<and>
   normalizeUrl (normalizeUrl ''https://example.com/a//'') = ''https://example.com/a''"
  by code_simp

subsection \<open>EFTA inference\<close>





















end
